theory Spec2Isabelle
  imports Complex_Main
begin

section \<open>Floating-point values\<close>

text \<open>
  The program computes with IEEE-754 doubles (Python floats and numpy float64).  A double is
  modelled as an exact real number or one of the three non-finite values.  Rounding, overflow
  and the sign of zero are not modelled; a zero divisor is taken as +0.0.  numpy arithmetic on
  float64 never raises: a division by zero yields an infinity or NaN.
\<close>

datatype npfloat = Fin real | PInf | NInf | NaN

fun fl_div :: "npfloat \<Rightarrow> npfloat \<Rightarrow> npfloat" where
  "fl_div (Fin a) (Fin b) =
     (if b \<noteq> 0 then Fin (a / b) else if a = 0 then NaN else if 0 < a then PInf else NInf)"
| "fl_div NaN _ = NaN"
| "fl_div _ NaN = NaN"
| "fl_div (Fin a) _ = Fin 0"
| "fl_div PInf (Fin b) = (if 0 \<le> b then PInf else NInf)"
| "fl_div NInf (Fin b) = (if 0 \<le> b then NInf else PInf)"
| "fl_div PInf PInf = NaN"
| "fl_div PInf NInf = NaN"
| "fl_div NInf PInf = NaN"
| "fl_div NInf NInf = NaN"

instantiation npfloat :: "{plus, minus, uminus, times, inverse, abs}"
begin

fun uminus_npfloat :: "npfloat \<Rightarrow> npfloat" where
  "uminus_npfloat (Fin a) = Fin (- a)"
| "uminus_npfloat PInf = NInf"
| "uminus_npfloat NInf = PInf"
| "uminus_npfloat NaN = NaN"

fun plus_npfloat :: "npfloat \<Rightarrow> npfloat \<Rightarrow> npfloat" where
  "plus_npfloat (Fin a) (Fin b) = Fin (a + b)"
| "plus_npfloat NaN _ = NaN"
| "plus_npfloat _ NaN = NaN"
| "plus_npfloat PInf NInf = NaN"
| "plus_npfloat NInf PInf = NaN"
| "plus_npfloat PInf _ = PInf"
| "plus_npfloat _ PInf = PInf"
| "plus_npfloat NInf _ = NInf"
| "plus_npfloat _ NInf = NInf"

definition minus_npfloat :: "npfloat \<Rightarrow> npfloat \<Rightarrow> npfloat" where
  "minus_npfloat a b = a + (- b)"

fun times_npfloat :: "npfloat \<Rightarrow> npfloat \<Rightarrow> npfloat" where
  "times_npfloat (Fin a) (Fin b) = Fin (a * b)"
| "times_npfloat NaN _ = NaN"
| "times_npfloat _ NaN = NaN"
| "times_npfloat PInf (Fin b) = (if b = 0 then NaN else if 0 < b then PInf else NInf)"
| "times_npfloat NInf (Fin b) = (if b = 0 then NaN else if 0 < b then NInf else PInf)"
| "times_npfloat (Fin a) PInf = (if a = 0 then NaN else if 0 < a then PInf else NInf)"
| "times_npfloat (Fin a) NInf = (if a = 0 then NaN else if 0 < a then NInf else PInf)"
| "times_npfloat PInf PInf = PInf"
| "times_npfloat PInf NInf = NInf"
| "times_npfloat NInf PInf = NInf"
| "times_npfloat NInf NInf = PInf"

definition divide_npfloat :: "npfloat \<Rightarrow> npfloat \<Rightarrow> npfloat" where
  "divide_npfloat a b = fl_div a b"

definition inverse_npfloat :: "npfloat \<Rightarrow> npfloat" where
  "inverse_npfloat a = fl_div (Fin 1) a"

fun abs_npfloat :: "npfloat \<Rightarrow> npfloat" where
  "abs_npfloat (Fin a) = Fin \<bar>a\<bar>"
| "abs_npfloat NaN = NaN"
| "abs_npfloat _ = PInf"

instance ..

end

text \<open>Comparison: every comparison with NaN is false.\<close>

fun fl_lt :: "npfloat \<Rightarrow> npfloat \<Rightarrow> bool" where
  "fl_lt (Fin a) (Fin b) = (a < b)"
| "fl_lt NaN _ = False"
| "fl_lt _ NaN = False"
| "fl_lt NInf NInf = False"
| "fl_lt NInf _ = True"
| "fl_lt PInf _ = False"
| "fl_lt (Fin a) PInf = True"
| "fl_lt (Fin a) NInf = False"

definition fl_gt :: "npfloat \<Rightarrow> npfloat \<Rightarrow> bool" where
  "fl_gt a b = fl_lt b a"

text \<open>Python's built-in \<open>min(a, b)\<close> and \<open>max(a, b)\<close> keep the first argument unless the
  second is strictly smaller (larger).\<close>

definition py_min :: "npfloat \<Rightarrow> npfloat \<Rightarrow> npfloat" where
  "py_min a b = (if fl_lt b a then b else a)"

definition py_max :: "npfloat \<Rightarrow> npfloat \<Rightarrow> npfloat" where
  "py_max a b = (if fl_gt b a then b else a)"

text \<open>\<open>x ** 2\<close>\<close>

definition pow2 :: "npfloat \<Rightarrow> npfloat" where
  "pow2 a = a * a"

text \<open>numpy's \<open>sqrt\<close>, \<open>cos\<close>, \<open>tan\<close>, \<open>radians\<close>, \<open>degrees\<close> and \<open>arctan2\<close>.\<close>

fun np_sqrt :: "npfloat \<Rightarrow> npfloat" where
  "np_sqrt (Fin a) = (if a < 0 then NaN else Fin (sqrt a))"
| "np_sqrt PInf = PInf"
| "np_sqrt _ = NaN"

fun np_cos :: "npfloat \<Rightarrow> npfloat" where
  "np_cos (Fin a) = Fin (cos a)"
| "np_cos _ = NaN"

fun np_tan :: "npfloat \<Rightarrow> npfloat" where
  "np_tan (Fin a) = Fin (sin a) / Fin (cos a)"
| "np_tan _ = NaN"

definition radians :: "npfloat \<Rightarrow> npfloat" where
  "radians d = d * Fin (pi / 180)"

definition degrees :: "npfloat \<Rightarrow> npfloat" where
  "degrees r = r * Fin (180 / pi)"

definition atan2 :: "real \<Rightarrow> real \<Rightarrow> real" where
  "atan2 y x =
     (if 0 < x then arctan (y / x)
      else if x < 0 then (if 0 \<le> y then arctan (y / x) + pi else arctan (y / x) - pi)
      else if 0 < y then pi / 2 else if y < 0 then - pi / 2 else 0)"

fun np_arctan2 :: "npfloat \<Rightarrow> npfloat \<Rightarrow> npfloat" where
  "np_arctan2 (Fin y) (Fin x) = Fin (atan2 y x)"
| "np_arctan2 NaN _ = NaN"
| "np_arctan2 _ NaN = NaN"
| "np_arctan2 (Fin y) PInf = Fin 0"
| "np_arctan2 (Fin y) NInf = (if 0 \<le> y then Fin pi else Fin (- pi))"
| "np_arctan2 PInf (Fin x) = Fin (pi / 2)"
| "np_arctan2 NInf (Fin x) = Fin (- pi / 2)"
| "np_arctan2 PInf PInf = Fin (pi / 4)"
| "np_arctan2 PInf NInf = Fin (3 * pi / 4)"
| "np_arctan2 NInf PInf = Fin (- pi / 4)"
| "np_arctan2 NInf NInf = Fin (- 3 * pi / 4)"

section \<open>Constants\<close>

definition g :: npfloat where "g = Fin 9.81"
definition rim_width :: npfloat where "rim_width = Fin 1.04"
definition rim_height :: npfloat where "rim_height = Fin 1.83"
definition cargo_radius :: npfloat where "cargo_radius = Fin 0.15 / Fin 2"
definition drag_coeff :: npfloat where "drag_coeff = Fin 0.23"
definition cargo_mass :: npfloat where "cargo_mass = Fin 0.21"
definition air_density :: npfloat where "air_density = Fin 1.225"
definition cargo_area :: npfloat where "cargo_area = Fin pi * pow2 cargo_radius"

section \<open>Required-speed model\<close>

type_synonym point = "npfloat \<times> npfloat"

definition get_speed_func_squared :: "point \<Rightarrow> point \<Rightarrow> npfloat \<Rightarrow> npfloat" where
  "get_speed_func_squared startpt endpt =
     (case startpt of (x0, y0) \<Rightarrow> case endpt of (x1, y1) \<Rightarrow>
        (\<lambda>a. (Fin 0.5 * g / (y0 - y1 + (x1 - x0) * np_tan a)) * pow2 ((x1 - x0) / np_cos a)))"

section \<open>Flight model and terminal events\<close>

type_synonym state = "npfloat \<times> npfloat \<times> npfloat \<times> npfloat"

definition flight_model :: "npfloat \<Rightarrow> state \<Rightarrow> npfloat list" where
  "flight_model t s =
     (case s of (x, vx, y, vy) \<Rightarrow>
        let dx = vx;
            dy = vy;
            v_squared = pow2 vx + pow2 vy;
            v = np_sqrt v_squared;
            sin_component = vy / v;
            cos_component = vx / v;
            Fd = Fin 0.5 * air_density * cargo_area * drag_coeff * v_squared;
            Fx = - Fd * cos_component;
            Fy = - Fd * sin_component - cargo_mass * g;
            dvx = Fx / cargo_mass;
            dvy = Fy / cargo_mass
        in [dx, dvx, dy, dvy])"

definition hit_ground :: "npfloat \<Rightarrow> state \<Rightarrow> npfloat" where
  "hit_ground t s = (case s of (x, vx, y, vy) \<Rightarrow> y)"

definition hit_rim :: "npfloat \<Rightarrow> state \<Rightarrow> npfloat" where
  "hit_rim t s =
     (case s of (x, vx, y, vy) \<Rightarrow>
        let dist_to_rim = py_min (x - (- rim_width) / Fin 2) (- (y - rim_height))
        in dist_to_rim + cargo_radius)"

definition passed_rim :: "npfloat \<Rightarrow> state \<Rightarrow> npfloat" where
  "passed_rim t s = (case s of (x, vx, y, vy) \<Rightarrow> x - rim_width / Fin 2)"

text \<open>Each event function carries the attribute \<open>terminal = True\<close>.\<close>

record event =
  ev_fn :: "npfloat \<Rightarrow> state \<Rightarrow> npfloat"
  ev_terminal :: bool

definition hit_ground_event :: event where
  "hit_ground_event = \<lparr>ev_fn = hit_ground, ev_terminal = True\<rparr>"

definition hit_rim_event :: event where
  "hit_rim_event = \<lparr>ev_fn = hit_rim, ev_terminal = True\<rparr>"

definition passed_rim_event :: event where
  "passed_rim_event = \<lparr>ev_fn = passed_rim, ev_terminal = True\<rparr>"

section \<open>Arrays and library calls\<close>

datatype py_error = IndexError | SolverFailure

text \<open>
  A two-dimensional numpy array: its shape and its items.  Every row has \<open>ncols\<close> items.
  \<open>A[i]\<close> and \<open>A[i, :]\<close> raise IndexError outside the first axis; \<open>v[-1]\<close> raises IndexError
  on an empty vector.
\<close>

record ndarray =
  nrows :: nat
  ncols :: nat
  item :: "nat \<Rightarrow> nat \<Rightarrow> npfloat"

definition row_of :: "ndarray \<Rightarrow> nat \<Rightarrow> py_error + npfloat list" where
  "row_of A i = (if i < nrows A then Inr (map (item A i) [0..<ncols A]) else Inl IndexError)"

definition last_of :: "npfloat list \<Rightarrow> py_error + npfloat" where
  "last_of v = (if v = [] then Inl IndexError else Inr (last v))"

text \<open>
  The result object of \<open>scipy.integrate.solve_ivp\<close>; the program reads only its field \<open>y\<close>,
  the array of states with one row per state component and one column per recorded time.
  The integrator itself is a parameter of the model: it receives the right-hand side, the time
  span, the initial state, the events and \<open>max_step\<close>, and either returns a result or does not
  (\<open>SolverFailure\<close>: an exception of the library or a run that never ends).
\<close>

record ode_result =
  sol_y :: ndarray

type_synonym ivp_solver =
  "(npfloat \<Rightarrow> state \<Rightarrow> npfloat list) \<Rightarrow> npfloat \<times> npfloat \<Rightarrow> state \<Rightarrow> event list \<Rightarrow> npfloat
     \<Rightarrow> py_error + ode_result"

text \<open>
  \<open>scipy.optimize.fsolve(f, x0)\<close> returns the array of the solution it stopped at (without
  \<open>full_output\<close> nothing tells whether it converged); \<open>scipy.integrate.quad(f, a, b)\<close> returns
  the pair of the integral and an error estimate.  Both are parameters of the model.
\<close>

type_synonym root_finder = "(npfloat \<Rightarrow> npfloat) \<Rightarrow> npfloat \<Rightarrow> npfloat list"

type_synonym quadrature = "(npfloat \<Rightarrow> npfloat) \<Rightarrow> npfloat \<Rightarrow> npfloat \<Rightarrow> npfloat \<times> npfloat"

text \<open>\<open>numpy.linspace(start, stop, num)\<close> with the end point included.\<close>

definition linspace :: "npfloat \<Rightarrow> npfloat \<Rightarrow> nat \<Rightarrow> npfloat list" where
  "linspace start stop num =
     (let dv = num - 1;
          delta = stop - start;
          step = delta / Fin (real dv);
          scaled = (\<lambda>i. if 0 < dv
                          then (if step = Fin 0 then Fin (real i) / Fin (real dv) * delta
                                else Fin (real i) * step)
                          else Fin (real i) * delta);
          ys = map (\<lambda>i. scaled i + start) [0..<num]
      in if 1 < num then ys[num - 1 := stop] else ys)"

text \<open>\<open>numpy.arange(start, stop, step)\<close> for a positive step: \<open>ceil((stop - start) / step)\<close>
  values \<open>start + i * step\<close>.\<close>

definition arange :: "real \<Rightarrow> real \<Rightarrow> real \<Rightarrow> npfloat list" where
  "arange start stop step =
     map (\<lambda>i. Fin (start + real i * step)) [0..<nat \<lceil>(stop - start) / step\<rceil>]"

section \<open>Flight simulator\<close>

record trajectory =
  traj_result :: int
  traj_x :: "npfloat list"
  traj_y :: "npfloat list"

definition try_shot :: "ivp_solver \<Rightarrow> state \<Rightarrow> py_error + trajectory" where
  "try_shot solve_ivp s0 =
     (let t_span = (Fin 0, Fin 5.0)
      in case solve_ivp flight_model t_span s0
                [hit_ground_event, hit_rim_event, passed_rim_event] (Fin 0.05) of
           Inl e \<Rightarrow> Inl e
         | Inr solution \<Rightarrow>
             (case row_of (sol_y solution) 0 of
                Inl e \<Rightarrow> Inl e
              | Inr xs \<Rightarrow>
                  (case last_of xs of
                     Inl e \<Rightarrow> Inl e
                   | Inr x_final \<Rightarrow>
                       let result =
                             (if fl_lt x_final (- rim_width / Fin 2) then - 1
                              else if fl_gt x_final (rim_width / Fin 2 - cargo_radius) then 1
                              else 0)
                       in (case row_of (sol_y solution) 2 of
                             Inl e \<Rightarrow> Inl e
                           | Inr ys \<Rightarrow>
                               Inr \<lparr>traj_result = result, traj_x = xs, traj_y = ys\<rparr>))))"

section \<open>Angular-speed space\<close>

record ang_speed_space =
  area :: npfloat
  angles :: "npfloat list"
  lower_bound :: "npfloat list"
  upper_bound :: "npfloat list"

definition get_ang_speed_space ::
  "root_finder \<Rightarrow> quadrature \<Rightarrow> npfloat \<Rightarrow> npfloat \<Rightarrow> py_error + ang_speed_space" where
  "get_ang_speed_space fsolve quad xpos ypos =
     (let f_far_squared = get_speed_func_squared (xpos, ypos) (rim_width / Fin 2, rim_height);
          f_near_squared = get_speed_func_squared (xpos, ypos) (- rim_width / Fin 2, rim_height);
          f_squared_diff = (\<lambda>a. f_far_squared a - f_near_squared a)
      in case fsolve f_squared_diff (radians (Fin 85)) of
           [] \<Rightarrow> Inl IndexError
         | intersection # _ \<Rightarrow>
             let ang_lower_bound = py_max intersection (radians (Fin 5));
                 ang_upper_bound = radians (Fin 85);
                 f_far = (\<lambda>a. np_sqrt (f_far_squared a));
                 f_near = (\<lambda>a. np_sqrt (f_near_squared a));
                 f_diff = (\<lambda>a. f_far a - f_near a);
                 (area_val, error) = quad f_diff ang_lower_bound ang_upper_bound;
                 angles_val = linspace (degrees ang_lower_bound) (degrees ang_upper_bound) 50;
                 lower_bound_pts = map f_near (map radians angles_val);
                 upper_bound_pts = map f_far (map radians angles_val)
             in Inr \<lparr>area = area_val, angles = angles_val,
                     lower_bound = lower_bound_pts, upper_bound = upper_bound_pts\<rparr>)"

section \<open>Heat map\<close>

definition x_range :: "npfloat list" where
  "x_range = arange (- 6) (- 1) 0.2"

definition y_range :: "npfloat list" where
  "y_range = arange 0.2 1.25 0.2"

record heatmap =
  hm_x_range :: "npfloat list"
  hm_y_range :: "npfloat list"
  hm_area_grid :: "npfloat list list"

text \<open>The inner loop over \<open>range(y_range.size)\<close>, appending to \<open>row\<close>.\<close>

fun row_loop :: "root_finder \<Rightarrow> quadrature \<Rightarrow> nat \<Rightarrow> nat list \<Rightarrow> npfloat list
                 \<Rightarrow> py_error + npfloat list" where
  "row_loop fsolve quad xi [] row = Inr row"
| "row_loop fsolve quad xi (yi # yis) row =
     (case get_ang_speed_space fsolve quad (x_range ! xi) (y_range ! yi) of
        Inl e \<Rightarrow> Inl e
      | Inr area_data \<Rightarrow>
          let area_val = area area_data * np_arctan2 rim_width \<bar>x_range ! xi\<bar>
          in row_loop fsolve quad xi yis (row @ [area_val]))"

text \<open>The outer loop over \<open>range(x_range.size)\<close>, appending to \<open>area_grid\<close>.\<close>

fun grid_loop :: "root_finder \<Rightarrow> quadrature \<Rightarrow> nat list \<Rightarrow> npfloat list list
                  \<Rightarrow> py_error + npfloat list list" where
  "grid_loop fsolve quad [] area_grid = Inr area_grid"
| "grid_loop fsolve quad (xi # xis) area_grid =
     (case row_loop fsolve quad xi [0..<length y_range] [] of
        Inl e \<Rightarrow> Inl e
      | Inr row \<Rightarrow> grid_loop fsolve quad xis (area_grid @ [row]))"

definition generate_heatmap :: "root_finder \<Rightarrow> quadrature \<Rightarrow> py_error + heatmap" where
  "generate_heatmap fsolve quad =
     (case grid_loop fsolve quad [0..<length x_range] [] of
        Inl e \<Rightarrow> Inl e
      | Inr area_grid \<Rightarrow>
          Inr \<lparr>hm_x_range = x_range, hm_y_range = y_range, hm_area_grid = area_grid\<rparr>)"

section \<open>The recorded path of the integrator\<close>

text \<open>
  \<open>scipy.integrate.solve_ivp(fun, t_span, y0, events, max_step)\<close> keeps the list \<open>ys\<close> of
  recorded states.  The list starts as \<open>[y0]\<close>.  Each pass of its loop calls \<open>solver.step()\<close>:
  when the step fails the loop breaks and nothing is appended; otherwise one state is
  appended, the state after the step or, when a terminal event fired in the step, the state
  located at the event, and the loop goes on from the new solver state or stops (end of the
  time span, or terminal event).  The field \<open>y\<close> of the result is \<open>np.vstack(ys).T\<close>, with one row
  per state component and one column per recorded state.  The Runge-Kutta step and the
  location of events are a parameter; a loop that never ends returns nothing.
\<close>

datatype 'st iteration = Failed | Recorded state "'st option"

partial_function (option) record_loop ::
  "('st \<Rightarrow> 'st iteration) \<Rightarrow> 'st \<Rightarrow> state list \<Rightarrow> state list option" where
  "record_loop iter st ys =
     (case iter st of
        Failed \<Rightarrow> Some ys
      | Recorded y None \<Rightarrow> Some (ys @ [y])
      | Recorded y (Some st') \<Rightarrow> record_loop iter st' (ys @ [y]))"

type_synonym 'st stepper =
  "(npfloat \<Rightarrow> state \<Rightarrow> npfloat list) \<Rightarrow> npfloat \<times> npfloat \<Rightarrow> event list \<Rightarrow> npfloat
     \<Rightarrow> 'st \<Rightarrow> 'st iteration"

definition component :: "state \<Rightarrow> nat \<Rightarrow> npfloat" where
  "component s i = (case s of (x, vx, y, vy) \<Rightarrow> [x, vx, y, vy] ! i)"

definition vstack_T :: "state list \<Rightarrow> ndarray" where
  "vstack_T ys = \<lparr>nrows = 4, ncols = length ys, item = (\<lambda>i j. component (ys ! j) i)\<rparr>"

definition scipy_solve_ivp :: "'st stepper \<Rightarrow> (state \<Rightarrow> 'st) \<Rightarrow> ivp_solver" where
  "scipy_solve_ivp step init f t_span y0 events max_step =
     (case record_loop (step f t_span events max_step) (init y0) [y0] of
        None \<Rightarrow> Inl SolverFailure
      | Some ys \<Rightarrow> Inr \<lparr>sol_y = vstack_T ys\<rparr>)"

text \<open>Column 0 of an array of states is a given state.\<close>

definition starts_at :: "ndarray \<Rightarrow> state \<Rightarrow> bool" where
  "starts_at A s0 =
     (case s0 of (x, vx, y, vy) \<Rightarrow>
        0 < ncols A \<and> item A 0 0 = x \<and> item A 1 0 = vx \<and> item A 2 0 = y \<and> item A 3 0 = vy)"

text \<open>A stepper that takes one explicit Euler step of length \<open>max_step\<close> and stops; its
  solver state is the current state of the projectile.\<close>

definition euler_step :: "state stepper" where
  "euler_step f t_span events max_step s =
     (case s of (x, vx, y, vy) \<Rightarrow>
        (case f (fst t_span) s of
           [dx, dvx, dy, dvy] \<Rightarrow>
             Recorded (x + max_step * dx, vx + max_step * dvx,
                       y + max_step * dy, vy + max_step * dvy) None
         | _ \<Rightarrow> Failed))"

text \<open>
  Back ends on which the program can be evaluated: an integrator that stops at once, so that
  its result holds the initial state alone; a root finder that answers a fixed angle; a
  quadrature that answers zero.
\<close>

definition first_sample_solver :: ivp_solver where
  "first_sample_solver f t_span s0 events max_step =
     Inr \<lparr>sol_y = \<lparr>nrows = 4, ncols = 1,
                    item = (\<lambda>i j. case s0 of (x, vx, y, vy) \<Rightarrow> [x, vx, y, vy] ! i)\<rparr>\<rparr>"

definition const_root_finder :: "npfloat \<Rightarrow> root_finder" where
  "const_root_finder c f x0 = [c]"

definition zero_quadrature :: quadrature where
  "zero_quadrature f a b = (Fin 0, Fin 0)"

text \<open>The heat map that the constant root finder and the zero quadrature produce.\<close>

definition flat_heatmap :: heatmap where
  "flat_heatmap =
     \<lparr>hm_x_range = x_range, hm_y_range = y_range,
      hm_area_grid = replicate (length x_range) (replicate (length y_range) (Fin 0))\<rparr>"

section \<open>Double-precision rounding\<close>

text \<open>
  The model above computes with exact reals.  To compare the value a function returns with a
  closed formula, the rounding of IEEE-754 binary64 is needed: every arithmetic operation
  returns the double nearest to the exact result, ties to the even significand (53 bits,
  exponents -1022 to 1023, gradual underflow, overflow to an infinity).  Decimal literals
  are rounded the same way.  \<open>numpy.tan\<close> and \<open>numpy.cos\<close> are taken as correctly rounded;
  \<open>w ** 2\<close> is the rounded product \<open>w * w\<close>.
\<close>

definition pow2i :: "int \<Rightarrow> real" where
  "pow2i e = (if 0 \<le> e then 2 ^ nat e else 1 / 2 ^ nat (- e))"

definition binade :: "real \<Rightarrow> int" where
  "binade x = \<lfloor>log 2 \<bar>x\<bar>\<rfloor>"

definition round_half_even :: "real \<Rightarrow> int" where
  "round_half_even x =
     (let f = \<lfloor>x\<rfloor>; d = x - of_int f
      in if d < 1 / 2 then f else if 1 / 2 < d then f + 1 else if even f then f else f + 1)"

definition rnd :: "real \<Rightarrow> npfloat" where
  "rnd x =
     (if x = 0 then Fin 0
      else let u = pow2i (max (binade x) (- 1022) - 52);
               r = of_int (round_half_even (x / u)) * u
           in if 2 ^ 1024 \<le> \<bar>r\<bar> then (if 0 < x then PInf else NInf) else Fin r)"

fun d_add :: "npfloat \<Rightarrow> npfloat \<Rightarrow> npfloat" where
  "d_add (Fin a) (Fin b) = rnd (a + b)"
| "d_add a b = a + b"

fun d_sub :: "npfloat \<Rightarrow> npfloat \<Rightarrow> npfloat" where
  "d_sub (Fin a) (Fin b) = rnd (a - b)"
| "d_sub a b = a - b"

fun d_mul :: "npfloat \<Rightarrow> npfloat \<Rightarrow> npfloat" where
  "d_mul (Fin a) (Fin b) = rnd (a * b)"
| "d_mul a b = a * b"

fun d_div :: "npfloat \<Rightarrow> npfloat \<Rightarrow> npfloat" where
  "d_div (Fin a) (Fin b) = (if b = 0 then Fin a / Fin b else rnd (a / b))"
| "d_div a b = a / b"

fun d_tan :: "npfloat \<Rightarrow> npfloat" where
  "d_tan (Fin a) = rnd (tan a)"
| "d_tan _ = NaN"

fun d_cos :: "npfloat \<Rightarrow> npfloat" where
  "d_cos (Fin a) = rnd (cos a)"
| "d_cos _ = NaN"

text \<open>\<open>get_speed_func_squared\<close> with every operation rounded, in the order of the source.\<close>

definition get_speed_func_squared_double :: "point \<Rightarrow> point \<Rightarrow> npfloat \<Rightarrow> npfloat" where
  "get_speed_func_squared_double startpt endpt =
     (case startpt of (x0, y0) \<Rightarrow> case endpt of (x1, y1) \<Rightarrow>
        (\<lambda>a. d_mul (d_div (d_mul (rnd 0.5) (rnd 9.81))
                          (d_add (d_sub y0 y1) (d_mul (d_sub x1 x0) (d_tan a))))
                   (let w = d_div (d_sub x1 x0) (d_cos a) in d_mul w w)))"

text \<open>The formula of the required speed, evaluated in doubles in the order it is written.\<close>

definition speed_formula_double :: "point \<Rightarrow> point \<Rightarrow> npfloat \<Rightarrow> npfloat" where
  "speed_formula_double startpt endpt =
     (case startpt of (x0, y0) \<Rightarrow> case endpt of (x1, y1) \<Rightarrow>
        (\<lambda>a. d_div (d_mul (d_div (rnd 9.81) (rnd 2))
                          (let w = d_div (d_sub x1 x0) (d_cos a) in d_mul w w))
                   (d_add (d_sub y0 y1) (d_mul (d_sub x1 x0) (d_tan a)))))"

text \<open>The double nearest to 9.81, and the magnitudes at which a rounded result is a normal
  double with room for one more rounding.\<close>

definition g_double :: real where
  "g_double = 5522539043063071 / 2 ^ 49"

definition in_normal_range :: "real \<Rightarrow> bool" where
  "in_normal_range x = (pow2i (- 1021) \<le> \<bar>x\<bar> \<and> \<bar>x\<bar> < 2 ^ 1022)"

section \<open>Basic facts\<close>

lemma nan_absorb [simp]:
  "a * NaN = NaN" "NaN * a = NaN" "a + NaN = NaN" "NaN + a = NaN"
  "a - NaN = NaN" "NaN - a = NaN" "a / NaN = NaN" "NaN / a = NaN"
  by (cases a; simp add: minus_npfloat_def divide_npfloat_def)+

lemma np_tan_Fin: "cos a \<noteq> 0 \<Longrightarrow> np_tan (Fin a) = Fin (tan a)"
  by (simp add: divide_npfloat_def tan_def)

lemma degrees_radians_85: "degrees (radians (Fin 85)) = Fin 85"
  by (simp add: radians_def degrees_def)

lemma linspace_length: "length (linspace a b n) = n"
  by (simp add: linspace_def Let_def)

lemma linspace_last: "1 < n \<Longrightarrow> last (linspace a b n) = b"
  by (simp add: linspace_def Let_def last_conv_nth)

lemma linspace_hd:
  assumes n: "1 < n"
  shows "hd (linspace (Fin a) (Fin b) n) = Fin a"
proof -
  have "hd (linspace (Fin a) (Fin b) n) = linspace (Fin a) (Fin b) n ! 0"
    using n by (simp add: hd_conv_nth linspace_length flip: length_0_conv)
  also have "\<dots> = Fin a"
    using n by (simp add: linspace_def Let_def minus_npfloat_def divide_npfloat_def)
  finally show ?thesis .
qed

section \<open>Flight simulator: outcome and path\<close>

lemma try_shot_Inr:
  assumes "try_shot solve_ivp s0 = Inr r"
  shows "\<exists>sol.
    solve_ivp flight_model (Fin 0, Fin 5) s0
      [hit_ground_event, hit_rim_event, passed_rim_event] (Fin 0.05) = Inr sol \<and>
    0 < ncols (sol_y sol) \<and> 2 < nrows (sol_y sol) \<and>
    traj_x r = map (item (sol_y sol) 0) [0..<ncols (sol_y sol)] \<and>
    traj_y r = map (item (sol_y sol) 2) [0..<ncols (sol_y sol)] \<and>
    traj_result r =
      (if fl_lt (last (traj_x r)) (- rim_width / Fin 2) then - 1
       else if fl_gt (last (traj_x r)) (rim_width / Fin 2 - cargo_radius) then 1
       else 0)"
proof -
  let ?call = "solve_ivp flight_model (Fin 0, Fin 5) s0
      [hit_ground_event, hit_rim_event, passed_rim_event] (Fin 0.05)"
  obtain sol where s: "?call = Inr sol"
    using assms by (cases ?call) (simp_all add: try_shot_def)
  have r0: "0 < nrows (sol_y sol)"
    using assms s by (simp add: try_shot_def row_of_def split: if_splits)
  have nc: "0 < ncols (sol_y sol)"
    using assms s r0 by (simp add: try_shot_def row_of_def last_of_def split: if_splits)
  have r2: "2 < nrows (sol_y sol)"
    using assms s r0 nc
    by (simp add: try_shot_def row_of_def last_of_def Let_def split: if_splits)
  have "r = \<lparr>traj_result =
               (if fl_lt (last (map (item (sol_y sol) 0) [0..<ncols (sol_y sol)]))
                     (- rim_width / Fin 2) then - 1
                else if fl_gt (last (map (item (sol_y sol) 0) [0..<ncols (sol_y sol)]))
                     (rim_width / Fin 2 - cargo_radius) then 1
                else 0),
             traj_x = map (item (sol_y sol) 0) [0..<ncols (sol_y sol)],
             traj_y = map (item (sol_y sol) 2) [0..<ncols (sol_y sol)]\<rparr>"
    using assms s r0 nc r2 by (simp add: try_shot_def row_of_def last_of_def Let_def)
  then show ?thesis using s nc r2 by (intro exI[of _ sol]) simp
qed

lemma try_shot_path:
  assumes "try_shot solve_ivp s0 = Inr r"
  shows "\<exists>sol. solve_ivp flight_model (Fin 0, Fin 5) s0
                 [hit_ground_event, hit_rim_event, passed_rim_event] (Fin 0.05) = Inr sol \<and>
               0 < ncols (sol_y sol) \<and>
               traj_x r = map (item (sol_y sol) 0) [0..<ncols (sol_y sol)] \<and>
               traj_y r = map (item (sol_y sol) 2) [0..<ncols (sol_y sol)]"
  using try_shot_Inr[OF assms]
  apply (elim exE conjE)
  subgoal for sol by (rule exI[of _ sol]) simp
  done

lemma try_shot_result:
  assumes "try_shot solve_ivp s0 = Inr r"
  shows "traj_result r =
           (if fl_lt (last (traj_x r)) (- rim_width / Fin 2) then - 1
            else if fl_gt (last (traj_x r)) (rim_width / Fin 2 - cargo_radius) then 1
            else 0)"
  using try_shot_Inr[OF assms] by (elim exE conjE)

lemma try_shot_first_sample:
  "try_shot first_sample_solver (x, vx, y, vy) =
     Inr \<lparr>traj_result =
             (if fl_lt x (- rim_width / Fin 2) then - 1
              else if fl_gt x (rim_width / Fin 2 - cargo_radius) then 1 else 0),
          traj_x = [x], traj_y = [y]\<rparr>"
  by (simp add: try_shot_def first_sample_solver_def row_of_def last_of_def Let_def)

text \<open>
  Claim C1.  Whenever \<open>try_shot\<close> returns, its outcome code is a function of the last
  recorded x alone: it is -1 exactly when that x is below minus half the rim width, 1 exactly
  when it is strictly above half the rim width minus the cargo radius, and 0 in every other
  case; a final x equal to half the rim width minus the cargo radius gives 0.
\<close>

theorem try_shot_outcome:
  assumes "try_shot solve_ivp s0 = Inr r"
  shows "traj_x r \<noteq> [] \<and>
     (traj_result r = - 1 \<longleftrightarrow> fl_lt (last (traj_x r)) (- (rim_width / Fin 2))) \<and>
     (traj_result r = 1 \<longleftrightarrow> fl_gt (last (traj_x r)) (rim_width / Fin 2 - cargo_radius)) \<and>
     (traj_result r = 0 \<longleftrightarrow> \<not> fl_lt (last (traj_x r)) (- (rim_width / Fin 2)) \<and>
                            \<not> fl_gt (last (traj_x r)) (rim_width / Fin 2 - cargo_radius)) \<and>
     (last (traj_x r) = rim_width / Fin 2 - cargo_radius \<longrightarrow> traj_result r = 0)"
proof -
  have ne: "traj_x r \<noteq> []"
    using try_shot_path[OF assms] by (elim exE conjE) simp
  note res = try_shot_result[OF assms]
  have excl: "\<not> (fl_lt v (Fin (- 0.52)) \<and> fl_lt (Fin 0.445) v)" for v
    by (cases v) simp_all
  show ?thesis
    using ne res excl[of "last (traj_x r)"]
    by (auto simp add: rim_width_def cargo_radius_def divide_npfloat_def minus_npfloat_def
          fl_gt_def)
qed

theorem try_shot_outcome_witness:
  "try_shot first_sample_solver (Fin 0.445, Fin 0, Fin 2, Fin 0)
     = Inr \<lparr>traj_result = 0, traj_x = [Fin 0.445], traj_y = [Fin 2]\<rparr> \<and>
   last [Fin 0.445] = rim_width / Fin 2 - cargo_radius \<and>
   \<not> fl_gt (last [Fin 0.445]) (rim_width / Fin 2 - cargo_radius) \<and>
   \<not> fl_lt (last [Fin 0.445]) (- (rim_width / Fin 2))"
proof -
  have h: "try_shot first_sample_solver (Fin 0.445, Fin 0, Fin 2, Fin 0)
     = Inr \<lparr>traj_result = 0, traj_x = [Fin 0.445], traj_y = [Fin 2]\<rparr>"
    by (simp add: try_shot_first_sample rim_width_def cargo_radius_def divide_npfloat_def
          minus_npfloat_def fl_gt_def)
  have b: "last [Fin 0.445] = rim_width / Fin 2 - cargo_radius"
    by (simp add: rim_width_def cargo_radius_def divide_npfloat_def minus_npfloat_def)
  show ?thesis
    using h b try_shot_outcome[OF h] by simp
qed

lemma record_loop_extends:
  assumes "record_loop iter st ys = Some zs"
  shows "\<exists>later. zs = ys @ later"
proof (rule record_loop.raw_induct[where P = "\<lambda>iter st ys zs. \<exists>later. zs = ys @ later",
        OF _ assms])
  fix loop :: "('a \<Rightarrow> 'a iteration) \<Rightarrow> 'a \<Rightarrow> state list \<Rightarrow> state list option"
    and iter st ys zs
  assume IH: "\<And>iter st ys zs. loop iter st ys = Some zs \<Longrightarrow> \<exists>later. zs = ys @ later"
    and body: "(case iter st of
                  Failed \<Rightarrow> Some ys
                | Recorded y None \<Rightarrow> Some (ys @ [y])
                | Recorded y (Some st') \<Rightarrow> loop iter st' (ys @ [y])) = Some zs"
  show "\<exists>later. zs = ys @ later"
  proof (cases "iter st")
    case Failed
    then show ?thesis using body by simp
  next
    case (Recorded y next_state)
    show ?thesis
    proof (cases next_state)
      case None
      then show ?thesis using body Recorded by auto
    next
      case (Some st')
      then have "loop iter st' (ys @ [y]) = Some zs" using body Recorded by simp
      from IH[OF this] obtain later where "zs = (ys @ [y]) @ later" ..
      then have "zs = ys @ (y # later)" by simp
      then show ?thesis ..
    qed
  qed
qed

lemma scipy_solve_ivp_starts_at:
  assumes "scipy_solve_ivp step init f t_span s0 events max_step = Inr sol"
  shows "starts_at (sol_y sol) s0"
proof -
  obtain ys where l: "record_loop (step f t_span events max_step) (init s0) [s0] = Some ys"
    and sol: "sol = \<lparr>sol_y = vstack_T ys\<rparr>"
    using assms by (auto simp add: scipy_solve_ivp_def split: option.splits)
  from record_loop_extends[OF l] obtain later where "ys = [s0] @ later" ..
  then show ?thesis
    using sol by (cases s0) (simp add: starts_at_def vstack_T_def component_def)
qed

lemma try_shot_scipy_returns:
  assumes "record_loop (step flight_model (Fin 0, Fin 5)
               [hit_ground_event, hit_rim_event, passed_rim_event] (Fin 0.05)) (init s0) [s0]
             = Some ys"
  shows "\<exists>r. try_shot (scipy_solve_ivp step init) s0 = Inr r"
proof -
  from record_loop_extends[OF assms] obtain later where "ys = [s0] @ later" ..
  then show ?thesis
    using assms
    by (simp add: try_shot_def scipy_solve_ivp_def vstack_T_def row_of_def last_of_def Let_def)
qed

text \<open>
  Claim C10.  Whenever \<open>try_shot\<close> returns, the x and y sequences of its result have the
  same length and are not empty, whatever the integrator; with the recorded path of
  \<open>solve_ivp\<close>, which starts with the initial state, their first elements are the initial x
  and the initial y.
\<close>

theorem try_shot_path_begins_at_launch:
  "(try_shot solver s0 = Inr r' \<longrightarrow>
      length (traj_x r') = length (traj_y r') \<and> traj_x r' \<noteq> [] \<and> traj_y r' \<noteq> []) \<and>
   (try_shot (scipy_solve_ivp step init) (x0, vx0, y0, vy0) = Inr r \<longrightarrow>
      length (traj_x r) = length (traj_y r) \<and> traj_x r \<noteq> [] \<and> traj_y r \<noteq> [] \<and>
      hd (traj_x r) = x0 \<and> hd (traj_y r) = y0)"
proof -
  have shape: "length (traj_x q) = length (traj_y q) \<and> traj_x q \<noteq> [] \<and> traj_y q \<noteq> []"
    if "try_shot sv s = Inr q" for sv s q
    using try_shot_path[OF that] by (elim exE conjE) simp
  have first: "hd (traj_x r) = x0 \<and> hd (traj_y r) = y0"
    if ret: "try_shot (scipy_solve_ivp step init) (x0, vx0, y0, vy0) = Inr r"
  proof -
    from try_shot_path[OF ret] obtain sol where
      h: "scipy_solve_ivp step init flight_model (Fin 0, Fin 5) (x0, vx0, y0, vy0)
            [hit_ground_event, hit_rim_event, passed_rim_event] (Fin 0.05) = Inr sol \<and>
          0 < ncols (sol_y sol) \<and>
          traj_x r = map (item (sol_y sol) 0) [0..<ncols (sol_y sol)] \<and>
          traj_y r = map (item (sol_y sol) 2) [0..<ncols (sol_y sol)]" ..
    have "starts_at (sol_y sol) (x0, vx0, y0, vy0)"
      using h scipy_solve_ivp_starts_at by blast
    then have "item (sol_y sol) 0 0 = x0" "item (sol_y sol) 2 0 = y0"
      by (simp_all add: starts_at_def)
    then show ?thesis
      using h by (simp add: hd_map upt_conv_Cons)
  qed
  show ?thesis using shape first by blast
qed

lemma euler_path:
  "try_shot (scipy_solve_ivp euler_step (\<lambda>s. s)) (Fin (- 3), Fin 20, Fin 0.5, Fin 40)
     = Inr \<lparr>traj_result = - 1, traj_x = [Fin (- 3), Fin (- 2)],
            traj_y = [Fin 0.5, Fin 2.5]\<rparr>"
proof -
  obtain dvx dvy where
    f: "flight_model (Fin 0) (Fin (- 3), Fin 20, Fin 0.5, Fin 40) = [Fin 20, dvx, Fin 40, dvy]"
    by (simp add: flight_model_def Let_def)
  have two: "[0..<Suc (Suc 0)] = [0, Suc 0]"
    by (simp add: upt_rec)
  show ?thesis
    by (subst try_shot_def, subst scipy_solve_ivp_def, subst record_loop.simps)
       (simp add: euler_step_def f[simplified] vstack_T_def
          component_def row_of_def last_of_def Let_def two rim_width_def divide_npfloat_def)
qed

theorem try_shot_path_begins_at_launch_witness:
  "try_shot (scipy_solve_ivp euler_step (\<lambda>s. s)) (Fin (- 3), Fin 20, Fin 0.5, Fin 40)
     = Inr \<lparr>traj_result = - 1, traj_x = [Fin (- 3), Fin (- 2)],
            traj_y = [Fin 0.5, Fin 2.5]\<rparr> \<and>
   length [Fin (- 3), Fin (- 2)] = length [Fin 0.5, Fin 2.5] \<and>
   hd [Fin (- 3), Fin (- 2)] = Fin (- 3) \<and> hd [Fin 0.5, Fin 2.5] = Fin 0.5"
  using euler_path
    try_shot_path_begins_at_launch
      [of "scipy_solve_ivp euler_step (\<lambda>s. s)" "(Fin (- 3), Fin 20, Fin 0.5, Fin 40)"
          "\<lparr>traj_result = - 1, traj_x = [Fin (- 3), Fin (- 2)], traj_y = [Fin 0.5, Fin 2.5]\<rparr>"
          euler_step "\<lambda>s. s" "Fin (- 3)" "Fin 20" "Fin 0.5" "Fin 40"
          "\<lparr>traj_result = - 1, traj_x = [Fin (- 3), Fin (- 2)], traj_y = [Fin 0.5, Fin 2.5]\<rparr>"]
  by simp

section \<open>Required-speed model\<close>

text \<open>
  In exact real arithmetic the expression that \<open>get_speed_func_squared\<close> evaluates is the
  closed formula of the required speed.
\<close>

lemma exact_speed_formula:
  assumes "cos a \<noteq> 0" and "y0 - y1 + (x1 - x0) * tan a \<noteq> 0"
  shows "get_speed_func_squared (Fin x0, Fin y0) (Fin x1, Fin y1) (Fin a)
           = Fin ((9.81 / 2) * ((x1 - x0) / cos a)\<^sup>2 / (y0 - y1 + (x1 - x0) * tan a))"
  using assms
  by (simp add: get_speed_func_squared_def np_tan_Fin g_def pow2_def divide_npfloat_def
        minus_npfloat_def power2_eq_square del: np_tan.simps)

subsection \<open>Evaluation in doubles\<close>

lemma pow2i_powr: "pow2i k = 2 powr (of_int k)"
proof (cases "0 \<le> k")
  case True
  then show ?thesis by (simp add: pow2i_def powr_realpow[symmetric])
next
  case False
  then have "of_int k = - real (nat (- k))" by simp
  then show ?thesis
    using False
    by (simp add: pow2i_def powr_minus powr_realpow[symmetric] divide_inverse
          del: of_nat_nat)
qed

lemma pow2i_pos: "0 < pow2i k"
  by (simp add: pow2i_powr)

lemma binade_eq:
  assumes "pow2i k \<le> \<bar>x\<bar>" and "\<bar>x\<bar> < pow2i (k + 1)"
  shows "binade x = k"
proof -
  have pos: "0 < \<bar>x\<bar>" using assms(1) pow2i_pos[of k] by linarith
  show ?thesis
    unfolding binade_def
    using assms floor_log_eq_powr_iff[of "\<bar>x\<bar>" 2 k] pos
    by (simp add: pow2i_powr)
qed

lemma rnd_eval:
  assumes "pow2i k \<le> \<bar>x\<bar>" and "\<bar>x\<bar> < pow2i (k + 1)" and "- 1022 \<le> k"
    and "round_half_even (x / pow2i (k - 52)) = m"
    and "\<bar>of_int m * pow2i (k - 52)\<bar> < 2 ^ 1024"
  shows "rnd x = Fin (of_int m * pow2i (k - 52))"
proof -
  have b: "binade x = k" using assms(1,2) by (rule binade_eq)
  have nz: "x \<noteq> 0" using assms(1) pow2i_pos[of k] by auto
  show ?thesis
    unfolding rnd_def b using nz assms(3,4,5) by (simp add: Let_def max_def)
qed

lemma rnd_zero: "rnd 0 = Fin 0"
  by (simp add: rnd_def)

lemma rnd_small_values:
  "rnd 0.5 = Fin 0.5" "rnd 1 = Fin 1" "rnd 2 = Fin 2" "rnd 5 = Fin 5" "rnd 9 = Fin 9"
  "rnd 25 = Fin 25"
  using rnd_eval[of "- 1" "0.5" "2 ^ 52"] rnd_eval[of 0 1 "2 ^ 52"] rnd_eval[of 1 2 "2 ^ 52"]
    rnd_eval[of 2 5 "5 * 2 ^ 50"] rnd_eval[of 3 9 "9 * 2 ^ 49"] rnd_eval[of 4 25 "25 * 2 ^ 48"]
  by (simp_all add: pow2i_def round_half_even_def Let_def)

lemma rnd_g: "rnd 9.81 = Fin (5522539043063071 / 2 ^ 49)"
  using rnd_eval[of 3 "9.81" 5522539043063071]
  by (simp add: pow2i_def round_half_even_def Let_def)

lemma rnd_half_g: "rnd (5522539043063071 / 2 ^ 50) = Fin (5522539043063071 / 2 ^ 50)"
  using rnd_eval[of 2 "5522539043063071 / 2 ^ 50" 5522539043063071]
  by (simp add: pow2i_def round_half_even_def Let_def)

lemma rnd_half_g_over_9:
  "rnd (5522539043063071 / 2 ^ 50 / 9) = Fin (4908923593833841 / 2 ^ 53)"
  using rnd_eval[of "- 1" "5522539043063071 / 2 ^ 50 / 9" 4908923593833841]
  by (simp add: pow2i_def round_half_even_def Let_def)

lemma rnd_code_product:
  "rnd (4908923593833841 / 2 ^ 53 * 25) = Fin (7670193115365377 / 2 ^ 49)"
  using rnd_eval[of 3 "4908923593833841 / 2 ^ 53 * 25" 7670193115365377]
  by (simp add: pow2i_def round_half_even_def Let_def)

lemma rnd_half_g_times_25:
  "rnd (5522539043063071 / 2 ^ 50 * 25) = Fin (8628967254786048 / 2 ^ 46)"
  using rnd_eval[of 6 "5522539043063071 / 2 ^ 50 * 25" 8628967254786048]
  by (simp add: pow2i_def round_half_even_def Let_def)

lemma rnd_formula_quotient:
  "rnd (8628967254786048 / 2 ^ 46 / 9) = Fin (7670193115365376 / 2 ^ 49)"
  using rnd_eval[of 3 "8628967254786048 / 2 ^ 46 / 9" 7670193115365376]
  by (simp add: pow2i_def round_half_even_def Let_def)

lemma double_code_value:
  "get_speed_func_squared_double (Fin 0, Fin 9) (Fin 5, Fin 0) (Fin 0)
     = Fin (7670193115365377 / 2 ^ 49)"
proof -
  have den: "d_add (d_sub (Fin 9) (Fin 0)) (d_mul (d_sub (Fin 5) (Fin 0)) (d_tan (Fin 0)))
               = Fin 9"
    by (simp add: rnd_small_values rnd_zero)
  have w: "d_div (d_sub (Fin 5) (Fin 0)) (d_cos (Fin 0)) = Fin 5"
    by (simp add: rnd_small_values)
  have c: "d_mul (rnd 0.5) (rnd 9.81) = Fin (5522539043063071 / 2 ^ 50)"
    unfolding rnd_small_values rnd_g d_mul.simps using rnd_half_g by simp
  have q: "d_div (Fin (5522539043063071 / 2 ^ 50)) (Fin 9) = Fin (4908923593833841 / 2 ^ 53)"
    using rnd_half_g_over_9 by simp
  have sq: "d_mul (Fin 5) (Fin 5) = Fin 25"
    by (simp add: rnd_small_values)
  have p: "d_mul (Fin (4908923593833841 / 2 ^ 53)) (Fin 25) = Fin (7670193115365377 / 2 ^ 49)"
    using rnd_code_product by simp
  show ?thesis
    unfolding get_speed_func_squared_double_def prod.case den w c q Let_def sq p ..
qed

lemma double_formula_value:
  "speed_formula_double (Fin 0, Fin 9) (Fin 5, Fin 0) (Fin 0) = Fin 13.625"
proof -
  have den: "d_add (d_sub (Fin 9) (Fin 0)) (d_mul (d_sub (Fin 5) (Fin 0)) (d_tan (Fin 0)))
               = Fin 9"
    by (simp add: rnd_small_values rnd_zero)
  have w: "d_div (d_sub (Fin 5) (Fin 0)) (d_cos (Fin 0)) = Fin 5"
    by (simp add: rnd_small_values)
  have c: "d_div (rnd 9.81) (rnd 2) = Fin (5522539043063071 / 2 ^ 50)"
    unfolding rnd_small_values rnd_g using rnd_half_g by simp
  have sq: "d_mul (Fin 5) (Fin 5) = Fin 25"
    by (simp add: rnd_small_values)
  have p: "d_mul (Fin (5522539043063071 / 2 ^ 50)) (Fin 25) = Fin (8628967254786048 / 2 ^ 46)"
    using rnd_half_g_times_25 by simp
  have q: "d_div (Fin (8628967254786048 / 2 ^ 46)) (Fin 9) = Fin (7670193115365376 / 2 ^ 49)"
    using rnd_formula_quotient by simp
  have v: "(7670193115365376 / 2 ^ 49 :: real) = 13.625"
    by simp
  show ?thesis
    unfolding speed_formula_double_def prod.case den w c Let_def sq p q v ..
qed

subsection \<open>Rounding error of the returned value\<close>

lemma pow2i_add: "pow2i (a + b) = pow2i a * pow2i b"
  by (simp add: pow2i_powr powr_add)

lemma pow2i_52: "pow2i (k - 52) = pow2i k / 2 ^ 52"
proof -
  have "pow2i k = pow2i (k - 52) * pow2i 52" using pow2i_add[of "k - 52" 52] by simp
  moreover have "pow2i 52 = 2 ^ 52" by (simp add: pow2i_def)
  ultimately show ?thesis by simp
qed

lemma pow2i_less_iff: "pow2i a < pow2i b \<longleftrightarrow> a < b"
  by (simp add: pow2i_powr)

lemma binade_bounds:
  assumes "x \<noteq> 0"
  shows "pow2i (binade x) \<le> \<bar>x\<bar>" and "\<bar>x\<bar> < pow2i (binade x + 1)"
proof -
  have pos: "0 < \<bar>x\<bar>" using assms by simp
  have "binade x = \<lfloor>log 2 \<bar>x\<bar>\<rfloor>" by (simp add: binade_def)
  then have "2 powr (of_int (binade x)) \<le> \<bar>x\<bar> \<and> \<bar>x\<bar> < 2 powr (of_int (binade x + 1))"
    using floor_log_eq_powr_iff[of "\<bar>x\<bar>" 2 "binade x"] pos by simp
  then show "pow2i (binade x) \<le> \<bar>x\<bar>" and "\<bar>x\<bar> < pow2i (binade x + 1)"
    by (simp_all add: pow2i_powr)
qed

lemma binade_ge:
  assumes "pow2i n \<le> \<bar>x\<bar>"
  shows "n \<le> binade x"
proof -
  have nz: "x \<noteq> 0" using assms pow2i_pos[of n] by auto
  have "pow2i n < pow2i (binade x + 1)"
    using assms binade_bounds(2)[OF nz] by linarith
  then show ?thesis by (simp add: pow2i_less_iff)
qed

lemma round_half_even_error: "\<bar>of_int (round_half_even y) - y\<bar> \<le> 1 / 2"
  unfolding round_half_even_def Let_def
  by (auto simp add: abs_le_iff)

text \<open>A result in the normal range is rounded with a relative error of at most \<open>2\<^sup>-\<^sup>5\<^sup>3\<close>.\<close>

lemma rnd_rel:
  assumes lo: "pow2i (- 1022) \<le> \<bar>x\<bar>" and hi: "\<bar>x\<bar> < 2 ^ 1023"
  shows "\<exists>d. \<bar>d\<bar> \<le> 1 / 2 ^ 53 \<and> rnd x = Fin (x * (1 + d))"
proof -
  have nz: "x \<noteq> 0" using lo pow2i_pos[of "- 1022"] by auto
  define k where "k = binade x"
  define u where "u = pow2i (k - 52)"
  define m where "m = round_half_even (x / u)"
  define r where "r = of_int m * u"
  have kge: "- 1022 \<le> k" unfolding k_def using lo by (rule binade_ge)
  have kb: "pow2i k \<le> \<bar>x\<bar>" unfolding k_def using nz by (rule binade_bounds)
  have upos: "0 < u" unfolding u_def by (rule pow2i_pos)
  have u52: "u = pow2i k / 2 ^ 52" unfolding u_def by (rule pow2i_52)
  have "\<bar>of_int m - x / u\<bar> \<le> 1 / 2" unfolding m_def by (rule round_half_even_error)
  then have "\<bar>of_int m - x / u\<bar> * u \<le> 1 / 2 * u"
    using upos by (intro mult_right_mono) simp_all
  moreover have "\<bar>of_int m - x / u\<bar> * u = \<bar>r - x\<bar>"
  proof -
    have "\<bar>of_int m - x / u\<bar> * u = \<bar>(of_int m - x / u) * u\<bar>"
      using upos by (simp add: abs_mult)
    also have "(of_int m - x / u) * u = r - x"
      using upos by (simp add: r_def field_simps)
    finally show ?thesis .
  qed
  ultimately have err: "\<bar>r - x\<bar> \<le> u / 2" by simp
  have uhalf: "u / 2 \<le> \<bar>x\<bar> / 2 ^ 53"
    using kb unfolding u52 by (simp add: field_simps)
  define d where "d = (r - x) / x"
  have dabs: "\<bar>d\<bar> \<le> 1 / 2 ^ 53"
  proof -
    have "\<bar>d\<bar> = \<bar>r - x\<bar> / \<bar>x\<bar>" by (simp add: d_def)
    also have "\<dots> \<le> (\<bar>x\<bar> / 2 ^ 53) / \<bar>x\<bar>"
      using err uhalf nz by (intro divide_right_mono) simp_all
    also have "\<dots> = 1 / 2 ^ 53" using nz by simp
    finally show ?thesis .
  qed
  have rx: "r = x * (1 + d)" using nz by (simp add: d_def field_simps)
  have "\<bar>r\<bar> \<le> \<bar>x\<bar> + \<bar>r - x\<bar>" by linarith
  also have "\<dots> \<le> \<bar>x\<bar> + \<bar>x\<bar> / 2 ^ 53" using err uhalf by linarith
  also have "\<dots> < 2 ^ 1023 + 2 ^ 1023" using hi by (simp add: field_simps)
  also have "(2::real) ^ 1023 + 2 ^ 1023 = 2 ^ 1024" by simp
  finally have nov: "\<not> 2 ^ 1024 \<le> \<bar>r\<bar>" by simp
  have "rnd x = Fin r"
    unfolding rnd_def using nz kge nov
    by (simp add: Let_def max_def k_def[symmetric] u_def[symmetric] m_def[symmetric]
          r_def[symmetric])
  then show ?thesis using dabs rx by blast
qed

lemma two_roundings:
  fixes a b :: real
  assumes "\<bar>a\<bar> \<le> 1 / 2 ^ 53" and "\<bar>b\<bar> \<le> 1 / 2 ^ 53"
  shows "1 / 2 \<le> (1 + a) * (1 + b)" and "(1 + a) * (1 + b) \<le> 2"
proof -
  have ab: "\<bar>a * b\<bar> \<le> 1 / 2 ^ 53 * (1 / 2 ^ 53)"
    unfolding abs_mult using assms by (intro mult_mono) simp_all
  have e: "(1 + a) * (1 + b) = 1 + a + b + a * b" by (simp add: algebra_simps)
  have n: "(1 / 2 ^ 53 * (1 / 2 ^ 53) :: real) \<le> 1 / 8" by simp
  have u: "(1 / 2 ^ 53 :: real) \<le> 1 / 8" by simp
  show "1 / 2 \<le> (1 + a) * (1 + b)" unfolding e using assms ab n u by linarith
  show "(1 + a) * (1 + b) \<le> 2" unfolding e using assms ab n u by linarith
qed

lemma three_roundings:
  fixes a b c :: real
  assumes "\<bar>a\<bar> \<le> 1 / 2 ^ 53" and "\<bar>b\<bar> \<le> 1 / 2 ^ 53" and "\<bar>c\<bar> \<le> 1 / 2 ^ 53"
  shows "\<bar>(1 + a) * (1 + b) * (1 + c) - 1\<bar> \<le> 1 / 2 ^ 51"
proof -
  define u :: real where "u = 1 / 2 ^ 53"
  have upos: "0 \<le> u" by (simp add: u_def)
  have ab: "\<bar>a * b\<bar> \<le> u * u"
    unfolding abs_mult u_def using assms by (intro mult_mono) simp_all
  have ac: "\<bar>a * c\<bar> \<le> u * u"
    unfolding abs_mult u_def using assms by (intro mult_mono) simp_all
  have bc: "\<bar>b * c\<bar> \<le> u * u"
    unfolding abs_mult u_def using assms by (intro mult_mono) simp_all
  have abc: "\<bar>a * b * c\<bar> \<le> u * u * u"
  proof -
    have "\<bar>a * b * c\<bar> = \<bar>a * b\<bar> * \<bar>c\<bar>" by (simp add: abs_mult)
    also have "\<dots> \<le> (u * u) * u"
      using ab assms(3) upos by (intro mult_mono) (simp_all add: u_def)
    finally show ?thesis .
  qed
  have e: "(1 + a) * (1 + b) * (1 + c) - 1 = a + b + c + a * b + a * c + b * c + a * b * c"
    by (simp add: algebra_simps)
  have n: "3 * u + 3 * (u * u) + u * u * u \<le> 1 / 2 ^ 51"
    by (simp add: u_def)
  have "\<bar>a\<bar> \<le> u" "\<bar>b\<bar> \<le> u" "\<bar>c\<bar> \<le> u" using assms by (simp_all add: u_def)
  then show ?thesis
    unfolding e using ab ac bc abc n by linarith
qed

lemma double_product_bound:
  fixes c dn wv :: real
  assumes dn: "dn \<noteq> 0"
    and q_lo: "pow2i (- 1022) \<le> \<bar>c / dn\<bar>" and q_hi: "\<bar>c / dn\<bar> < 2 ^ 1023"
    and s_lo: "pow2i (- 1022) \<le> \<bar>wv * wv\<bar>" and s_hi: "\<bar>wv * wv\<bar> < 2 ^ 1023"
    and p_lo: "pow2i (- 1021) \<le> \<bar>c / dn * (wv * wv)\<bar>"
    and p_hi: "\<bar>c / dn * (wv * wv)\<bar> < 2 ^ 1022"
  shows "\<exists>e. \<bar>e\<bar> \<le> 1 / 2 ^ 51 \<and>
             d_mul (d_div (Fin c) (Fin dn)) (d_mul (Fin wv) (Fin wv))
               = Fin (c / dn * (wv * wv) * (1 + e))"
proof -
  from rnd_rel[OF q_lo q_hi] obtain d1 where
    d1: "\<bar>d1\<bar> \<le> 1 / 2 ^ 53" "rnd (c / dn) = Fin (c / dn * (1 + d1))" by blast
  from rnd_rel[OF s_lo s_hi] obtain d2 where
    d2: "\<bar>d2\<bar> \<le> 1 / 2 ^ 53" "rnd (wv * wv) = Fin (wv * wv * (1 + d2))" by blast
  define P where "P = c / dn * (wv * wv)"
  define f where "f = (1 + d1) * (1 + d2)"
  have fb: "1 / 2 \<le> f" "f \<le> 2"
    unfolding f_def using two_roundings[OF d1(1) d2(1)] by simp_all
  have prod: "c / dn * (1 + d1) * (wv * wv * (1 + d2)) = P * f"
    unfolding P_def f_def by (simp only: mult_ac)
  have absf: "\<bar>P * f\<bar> = \<bar>P\<bar> * f" using fb by (simp add: abs_mult)
  have half: "pow2i (- 1022) = pow2i (- 1021) / 2"
    by (simp add: pow2i_def)
  have lo: "pow2i (- 1022) \<le> \<bar>P * f\<bar>"
  proof -
    have "pow2i (- 1021) * (1 / 2) \<le> \<bar>P\<bar> * f"
      using p_lo fb(1) pow2i_pos[of "- 1021"] unfolding P_def[symmetric]
      by (intro mult_mono) simp_all
    then show ?thesis unfolding absf half by simp
  qed
  have hi: "\<bar>P * f\<bar> < 2 ^ 1023"
  proof -
    have "\<bar>P\<bar> * f \<le> \<bar>P\<bar> * 2"
      using fb(2) by (intro mult_left_mono) simp_all
    also have "\<dots> < 2 ^ 1022 * 2"
      using p_hi unfolding P_def[symmetric] by simp
    also have "(2::real) ^ 1022 * 2 = 2 ^ 1023" by simp
    finally show ?thesis unfolding absf .
  qed
  from rnd_rel[OF lo hi] obtain d3 where
    d3: "\<bar>d3\<bar> \<le> 1 / 2 ^ 53" "rnd (P * f) = Fin (P * f * (1 + d3))" by blast
  define e where "e = (1 + d1) * (1 + d2) * (1 + d3) - 1"
  have eb: "\<bar>e\<bar> \<le> 1 / 2 ^ 51"
    unfolding e_def using d1(1) d2(1) d3(1) by (rule three_roundings)
  have "d_div (Fin c) (Fin dn) = rnd (c / dn)"
    using dn by (simp only: d_div.simps if_False)
  moreover have "d_mul (Fin wv) (Fin wv) = rnd (wv * wv)"
    by (simp only: d_mul.simps)
  ultimately have "d_mul (d_div (Fin c) (Fin dn)) (d_mul (Fin wv) (Fin wv)) = rnd (P * f)"
    by (simp only: d1(2) d2(2) d_mul.simps prod)
  also have "\<dots> = Fin (P * (1 + e))"
  proof -
    have "1 + e = f * (1 + d3)" by (simp add: e_def f_def)
    then show ?thesis unfolding d3(2) by (simp only: mult.assoc)
  qed
  finally show ?thesis using eb unfolding P_def by blast
qed

lemma half_g_double: "d_mul (rnd 0.5) (rnd 9.81) = Fin (g_double / 2)"
  unfolding rnd_small_values rnd_g d_mul.simps g_double_def using rnd_half_g by simp

lemma normal_range_weaken:
  assumes "in_normal_range x"
  shows "pow2i (- 1022) \<le> \<bar>x\<bar>" and "\<bar>x\<bar> < 2 ^ 1023"
proof -
  have "pow2i (- 1022) \<le> pow2i (- 1021)" by (simp add: pow2i_def)
  then show "pow2i (- 1022) \<le> \<bar>x\<bar>" using assms by (simp add: in_normal_range_def)
  have "(2::real) ^ 1022 \<le> 2 ^ 1023" by simp
  then show "\<bar>x\<bar> < 2 ^ 1023" using assms unfolding in_normal_range_def by linarith
qed

text \<open>
  Claim C2, as the code has it.  The value that the function returned by
  \<open>get_speed_func_squared\<close> computes is the value of the formula up to floating-point
  rounding, not exactly.  Let den and w be the doubles that the function computes for
  \<open>y0 - y1 + (x1 - x0) * tan a\<close> and \<open>(x1 - x0) / cos a\<close>, with den not zero, and let g be the
  double nearest to 9.81.  Whenever \<open>(g / 2) / den\<close>, \<open>w\<^sup>2\<close> and their product have a magnitude
  in the normal range from \<open>2\<^sup>-\<^sup>1\<^sup>0\<^sup>2\<^sup>1\<close> to \<open>2\<^sup>1\<^sup>0\<^sup>2\<^sup>2\<close>, the function returns
  \<open>(g / 2) * w\<^sup>2 / den * (1 + e)\<close> with \<open>\<bar>e\<bar> \<le> 2\<^sup>-\<^sup>5\<^sup>1\<close>.
\<close>

theorem get_speed_func_squared_rounding:
  assumes "d_add (d_sub y0 y1) (d_mul (d_sub x1 x0) (d_tan a)) = Fin den"
    and "d_div (d_sub x1 x0) (d_cos a) = Fin w"
    and "den \<noteq> 0"
    and "in_normal_range (g_double / 2 / den)"
    and "in_normal_range (w * w)"
    and "in_normal_range (g_double / 2 / den * (w * w))"
  shows "rnd 9.81 = Fin g_double \<and>
         (\<exists>e. \<bar>e\<bar> \<le> 1 / 2 ^ 51 \<and>
              get_speed_func_squared_double (x0, y0) (x1, y1) a
                = Fin (g_double / 2 * w\<^sup>2 / den * (1 + e)))"
proof -
  from double_product_bound[OF assms(3)
         normal_range_weaken[OF assms(4)] normal_range_weaken[OF assms(5)]]
       assms(6)
  obtain e where e: "\<bar>e\<bar> \<le> 1 / 2 ^ 51"
    "d_mul (d_div (Fin (g_double / 2)) (Fin den)) (d_mul (Fin w) (Fin w))
       = Fin (g_double / 2 / den * (w * w) * (1 + e))"
    unfolding in_normal_range_def by blast
  have "get_speed_func_squared_double (x0, y0) (x1, y1) a
          = d_mul (d_div (Fin (g_double / 2)) (Fin den)) (d_mul (Fin w) (Fin w))"
    unfolding get_speed_func_squared_double_def prod.case assms(1,2) half_g_double Let_def ..
  also have "\<dots> = Fin (g_double / 2 * w\<^sup>2 / den * (1 + e))"
    unfolding e(2) by (simp add: power2_eq_square)
  finally show ?thesis
    using e(1) rnd_g by (auto simp add: g_double_def)
qed

theorem get_speed_func_squared_rounding_witness:
  "d_add (d_sub (Fin 9) (Fin 0)) (d_mul (d_sub (Fin 5) (Fin 0)) (d_tan (Fin 0))) = Fin 9 \<and>
   d_div (d_sub (Fin 5) (Fin 0)) (d_cos (Fin 0)) = Fin 5 \<and>
   (9::real) \<noteq> 0 \<and>
   in_normal_range (g_double / 2 / 9) \<and>
   in_normal_range (5 * 5) \<and>
   in_normal_range (g_double / 2 / 9 * (5 * 5)) \<and>
   (\<exists>e. \<bar>e\<bar> \<le> 1 / 2 ^ 51 \<and>
        get_speed_func_squared_double (Fin 0, Fin 9) (Fin 5, Fin 0) (Fin 0)
          = Fin (g_double / 2 * 5\<^sup>2 / 9 * (1 + e)))"
proof -
  have den: "d_add (d_sub (Fin 9) (Fin 0)) (d_mul (d_sub (Fin 5) (Fin 0)) (d_tan (Fin 0)))
               = Fin 9"
    by (simp add: rnd_small_values rnd_zero)
  have w: "d_div (d_sub (Fin 5) (Fin 0)) (d_cos (Fin 0)) = Fin 5"
    by (simp add: rnd_small_values)
  have nz: "(9::real) \<noteq> 0" by simp
  have r1: "in_normal_range (g_double / 2 / 9)"
    by (simp add: in_normal_range_def g_double_def pow2i_def)
  have r2: "in_normal_range (5 * 5)"
    by (simp add: in_normal_range_def pow2i_def)
  have r3: "in_normal_range (g_double / 2 / 9 * (5 * 5))"
    by (simp add: in_normal_range_def g_double_def pow2i_def)
  show ?thesis
    using den w nz r1 r2 r3 get_speed_func_squared_rounding[OF den w nz r1 r2 r3]
    by blast
qed

text \<open>
  From (0, 9) to (5, 0) at angle 0 the formula gives \<open>4.905 * 25 / 9 = 13.625\<close>, in exact
  arithmetic and also when it is evaluated in doubles in the order it is written; the
  function returns the next double above, 13.625000000000002.
\<close>

theorem double_result_differs_from_formula:
  "(9.81 / 2) * ((5 - 0) / cos 0)\<^sup>2 / (9 - 0 + (5 - 0) * tan 0) = (13.625 :: real) \<and>
   speed_formula_double (Fin 0, Fin 9) (Fin 5, Fin 0) (Fin 0) = Fin 13.625 \<and>
   get_speed_func_squared_double (Fin 0, Fin 9) (Fin 5, Fin 0) (Fin 0)
     = Fin (13.625 + 1 / 2 ^ 49) \<and>
   get_speed_func_squared_double (Fin 0, Fin 9) (Fin 5, Fin 0) (Fin 0) \<noteq> Fin 13.625"
proof -
  have v: "(7670193115365377 / 2 ^ 49 :: real) = 13.625 + 1 / 2 ^ 49"
    by simp
  have f: "(9.81 / 2) * ((5 - 0) / cos 0)\<^sup>2 / (9 - 0 + (5 - 0) * tan 0) = (13.625 :: real)"
    by (simp add: power2_eq_square)
  show ?thesis
    using f double_formula_value double_code_value v by simp
qed

section \<open>Rim-collision event\<close>

text \<open>
  Claim C7.  The rim-collision event function is the minimum of the horizontal distance past
  the near aperture edge, \<open>x - (- rim_width / 2)\<close>, and the vertical distance below the
  aperture height, \<open>rim_height - y\<close>, plus the cargo radius; the event is terminal.  On finite
  positions it is \<open>min (x + 0.52) (1.83 - y) + 0.075\<close>, which is not a Euclidean distance:
  it is negative far below and behind the rim.
\<close>

theorem hit_rim_heuristic:
  "hit_rim t (x, vx, y, vy)
     = py_min (x - (- (rim_width / Fin 2))) (rim_height - y) + cargo_radius \<and>
   hit_rim t (Fin a, vx, Fin b, vy) = Fin (min (a - (- 0.52)) (1.83 - b) + 0.075) \<and>
   hit_rim t (Fin (- 3), vx, Fin 0.5, vy) = Fin (- 2.405) \<and>
   ev_fn hit_rim_event = hit_rim \<and> ev_terminal hit_rim_event"
proof -
  have general: "hit_rim t (x, vx, y, vy)
     = py_min (x - (- (rim_width / Fin 2))) (rim_height - y) + cargo_radius"
    by (cases x; cases y)
      (simp_all add: hit_rim_def rim_width_def rim_height_def minus_npfloat_def
         divide_npfloat_def)
  have finite: "hit_rim t (Fin a, vx, Fin b, vy) = Fin (min (a - (- 0.52)) (1.83 - b) + 0.075)"
    for a b
    by (simp add: hit_rim_def rim_width_def rim_height_def minus_npfloat_def
          divide_npfloat_def py_min_def cargo_radius_def min_def)
  have sample: "hit_rim t (Fin (- 3), vx, Fin 0.5, vy) = Fin (- 2.405)"
    by (simp add: finite)
  show ?thesis
    using general finite sample by (simp add: hit_rim_event_def)
qed

section \<open>Equations of motion\<close>

text \<open>
  Claim C4, as the code has it.  \<open>flight_model\<close> has no guard against the zero-speed
  singularity: for every state with \<open>vx = 0\<close> and \<open>vy = 0\<close>, at any time and any position, it
  divides 0 by the speed 0, and both acceleration components of the derivative it returns
  are NaN.
\<close>

theorem flight_model_zero_speed:
  "flight_model t (x, Fin 0, y, Fin 0) = [Fin 0, NaN, Fin 0, NaN] \<and>
   np_sqrt (pow2 (Fin 0) + pow2 (Fin 0)) = Fin 0 \<and> Fin 0 / Fin 0 = NaN"
  by (simp add: flight_model_def pow2_def divide_npfloat_def Let_def)

text \<open>
  The guard that the specification asks for is absent: for a projectile at rest the
  derivative already holds NaN.
\<close>

theorem flight_model_at_rest:
  "flight_model (Fin 0) (Fin (- 3), Fin 0, Fin 0.5, Fin 0) = [Fin 0, NaN, Fin 0, NaN]"
  by (simp add: flight_model_def pow2_def divide_npfloat_def Let_def)

section \<open>Angular-speed space\<close>

lemma get_ang_speed_space_Cons:
  assumes "fsolve (\<lambda>a. get_speed_func_squared (xpos, ypos) (rim_width / Fin 2, rim_height) a
                       - get_speed_func_squared (xpos, ypos) (- rim_width / Fin 2, rim_height) a)
             (radians (Fin 85)) = intersection # rest"
  shows "get_ang_speed_space fsolve quad xpos ypos =
     (let f_far = (\<lambda>a. np_sqrt (get_speed_func_squared (xpos, ypos)
                                   (rim_width / Fin 2, rim_height) a));
          f_near = (\<lambda>a. np_sqrt (get_speed_func_squared (xpos, ypos)
                                   (- rim_width / Fin 2, rim_height) a));
          lower = py_max intersection (radians (Fin 5));
          upper = radians (Fin 85);
          sampled = linspace (degrees lower) (degrees upper) 50
      in Inr \<lparr>area = fst (quad (\<lambda>a. f_far a - f_near a) lower upper),
              angles = sampled,
              lower_bound = map f_near (map radians sampled),
              upper_bound = map f_far (map radians sampled)\<rparr>)"
  using assms
  by (simp add: get_ang_speed_space_def Let_def split: prod.splits)

lemma get_ang_speed_space_Nil:
  assumes "fsolve (\<lambda>a. get_speed_func_squared (xpos, ypos) (rim_width / Fin 2, rim_height) a
                       - get_speed_func_squared (xpos, ypos) (- rim_width / Fin 2, rim_height) a)
             (radians (Fin 85)) = []"
  shows "get_ang_speed_space fsolve quad xpos ypos = Inl IndexError"
  using assms by (simp add: get_ang_speed_space_def Let_def)

text \<open>
  Claim C3.  Whenever \<open>get_ang_speed_space\<close> returns, the intersection is the first component
  of what the root finder answers for the difference of the far and near required-speed
  curves (targets \<open>(rim_width / 2, rim_height)\<close> and \<open>(- rim_width / 2, rim_height)\<close>), seeded at
  85 degrees in radians; the window is \<open>lower = max intersection (radians 5)\<close> and
  \<open>upper = radians 85\<close>: the area is the quadrature from lower to upper, and the 50 sampled
  angles run from \<open>degrees lower\<close> to \<open>degrees upper = 85\<close>.
\<close>

theorem get_ang_speed_space_window:
  assumes "get_ang_speed_space fsolve quad xpos ypos = Inr r"
  shows
    "(let v2_far = get_speed_func_squared (xpos, ypos) (rim_width / Fin 2, rim_height);
          v2_near = get_speed_func_squared (xpos, ypos) (- rim_width / Fin 2, rim_height);
          found = fsolve (\<lambda>a. v2_far a - v2_near a) (radians (Fin 85));
          intersection = hd found;
          lower = py_max intersection (radians (Fin 5));
          upper = radians (Fin 85)
      in found \<noteq> [] \<and>
         area r = fst (quad (\<lambda>a. np_sqrt (v2_far a) - np_sqrt (v2_near a)) lower upper) \<and>
         angles r = linspace (degrees lower) (degrees upper) 50 \<and>
         length (angles r) = 50 \<and>
         last (angles r) = degrees upper \<and> degrees upper = Fin 85 \<and>
         (\<forall>l. lower = Fin l \<longrightarrow> hd (angles r) = degrees lower))"
proof -
  let ?F = "\<lambda>a. get_speed_func_squared (xpos, ypos) (rim_width / Fin 2, rim_height) a
               - get_speed_func_squared (xpos, ypos) (- rim_width / Fin 2, rim_height) a"
  obtain i rest where f: "fsolve ?F (radians (Fin 85)) = i # rest"
    using assms get_ang_speed_space_Nil[where fsolve=fsolve and quad=quad and xpos=xpos and ypos=ypos]
    by (cases "fsolve ?F (radians (Fin 85))") simp_all
  have r: "r = \<lparr>area = fst (quad (\<lambda>a. np_sqrt (get_speed_func_squared (xpos, ypos)
                                   (rim_width / Fin 2, rim_height) a)
                               - np_sqrt (get_speed_func_squared (xpos, ypos)
                                   (- rim_width / Fin 2, rim_height) a))
                          (py_max i (radians (Fin 5))) (radians (Fin 85))),
               angles = linspace (degrees (py_max i (radians (Fin 5))))
                          (degrees (radians (Fin 85))) 50,
               lower_bound = lower_bound r, upper_bound = upper_bound r\<rparr>"
    using assms get_ang_speed_space_Cons[where fsolve=fsolve and quad=quad, OF f] by (auto simp add: Let_def)
  have a: "area r = fst (quad (\<lambda>a. np_sqrt (get_speed_func_squared (xpos, ypos)
                                   (rim_width / Fin 2, rim_height) a)
                               - np_sqrt (get_speed_func_squared (xpos, ypos)
                                   (- rim_width / Fin 2, rim_height) a))
                          (py_max i (radians (Fin 5))) (radians (Fin 85)))"
    by (subst r) simp
  have g: "angles r = linspace (degrees (py_max i (radians (Fin 5))))
                          (degrees (radians (Fin 85))) 50"
    by (subst r) simp
  have h: "hd (angles r) = degrees (py_max i (radians (Fin 5)))"
    if "py_max i (radians (Fin 5)) = Fin l" for l
  proof -
    have "degrees (py_max i (radians (Fin 5))) = Fin (l * 180 / pi)"
      using that by (simp add: degrees_def)
    then show ?thesis
      by (simp add: g degrees_radians_85 linspace_hd)
  qed
  show ?thesis
    unfolding Let_def
    using f a g h by (simp add: linspace_length linspace_last degrees_radians_85)
qed

lemma pi_window_bounds: "5 * pi / 180 < 1" "85 * pi / 180 < 2"
  using pi_less_4 by simp_all

lemma py_max_const_5: "py_max (Fin 1) (radians (Fin 5)) = Fin 1" "py_max (Fin 2) (radians (Fin 5)) = Fin 2"
  using pi_window_bounds by (simp_all add: py_max_def fl_gt_def radians_def)

theorem get_ang_speed_space_window_witness:
  "(case get_ang_speed_space (const_root_finder (Fin 1)) zero_quadrature (Fin (- 3)) (Fin 0.5) of
      Inl e \<Rightarrow> False
    | Inr r \<Rightarrow> area r = Fin 0 \<and> length (angles r) = 50 \<and>
               hd (angles r) = degrees (Fin 1) \<and> last (angles r) = Fin 85)"
proof -
  have f: "const_root_finder (Fin 1)
     (\<lambda>a. get_speed_func_squared (Fin (- 3), Fin 0.5) (rim_width / Fin 2, rim_height) a
          - get_speed_func_squared (Fin (- 3), Fin 0.5) (- rim_width / Fin 2, rim_height) a)
     (radians (Fin 85)) = Fin 1 # []"
    by (simp add: const_root_finder_def)
  have "\<exists>r. get_ang_speed_space (const_root_finder (Fin 1)) zero_quadrature
                       (Fin (- 3)) (Fin 0.5) = Inr r"
    using get_ang_speed_space_Cons[where fsolve="const_root_finder (Fin 1)"
                and quad=zero_quadrature, OF f]
    by (simp add: Let_def)
  then obtain r where h: "get_ang_speed_space (const_root_finder (Fin 1)) zero_quadrature
                       (Fin (- 3)) (Fin 0.5) = Inr r" ..
  show ?thesis
    unfolding h
    using get_ang_speed_space_window[OF h]
    by (simp add: Let_def const_root_finder_def zero_quadrature_def py_max_const_5
          linspace_length linspace_last linspace_hd degrees_def)
qed

text \<open>
  Claim C5, as the code has it.  \<open>get_ang_speed_space\<close> checks neither the convergence of the
  root finder nor the order of the window: its only failure is the IndexError of reading
  component 0 of an empty answer.  For every answer with at least one component, converged
  or not, it returns a normal result, also when \<open>lower > upper\<close>: the area is then the
  quadrature from lower to upper and the angles are sampled from lower down to upper.
\<close>

theorem get_ang_speed_space_no_domain_check:
  "(let v2_far = get_speed_func_squared (xpos, ypos) (rim_width / Fin 2, rim_height);
        v2_near = get_speed_func_squared (xpos, ypos) (- rim_width / Fin 2, rim_height);
        found = fsolve (\<lambda>a. v2_far a - v2_near a) (radians (Fin 85));
        lower = py_max (hd found) (radians (Fin 5));
        upper = radians (Fin 85)
    in (found = [] \<longrightarrow> get_ang_speed_space fsolve quad xpos ypos = Inl IndexError) \<and>
       (found \<noteq> [] \<longrightarrow>
          (\<exists>r. get_ang_speed_space fsolve quad xpos ypos = Inr r \<and>
               area r = fst (quad (\<lambda>a. np_sqrt (v2_far a) - np_sqrt (v2_near a)) lower upper) \<and>
               angles r = linspace (degrees lower) (degrees upper) 50)))"
proof -
  let ?F = "\<lambda>a. get_speed_func_squared (xpos, ypos) (rim_width / Fin 2, rim_height) a
               - get_speed_func_squared (xpos, ypos) (- rim_width / Fin 2, rim_height) a"
  show ?thesis
  proof (cases "fsolve ?F (radians (Fin 85))")
    case Nil
    then show ?thesis
      using get_ang_speed_space_Nil[where fsolve=fsolve and quad=quad and xpos=xpos and ypos=ypos]
      by (simp add: Let_def)
  next
    case (Cons i rest)
    then show ?thesis
      using get_ang_speed_space_Cons[where fsolve=fsolve and quad=quad, OF Cons]
      by (simp add: Let_def)
  qed
qed

theorem get_ang_speed_space_no_domain_check_witness:
  "const_root_finder (Fin 2)
     (\<lambda>a. get_speed_func_squared (Fin (- 3), Fin 0.5) (rim_width / Fin 2, rim_height) a
          - get_speed_func_squared (Fin (- 3), Fin 0.5) (- rim_width / Fin 2, rim_height) a)
     (radians (Fin 85)) \<noteq> [] \<and>
   const_root_finder NaN
     (\<lambda>a. get_speed_func_squared (Fin (- 3), Fin 0.5) (rim_width / Fin 2, rim_height) a
          - get_speed_func_squared (Fin (- 3), Fin 0.5) (- rim_width / Fin 2, rim_height) a)
     (radians (Fin 85)) \<noteq> [] \<and>
   (\<lambda>f x0. []) 
     (\<lambda>a. get_speed_func_squared (Fin (- 3), Fin 0.5) (rim_width / Fin 2, rim_height) a
          - get_speed_func_squared (Fin (- 3), Fin 0.5) (- rim_width / Fin 2, rim_height) a)
     (radians (Fin 85)) = ([] :: npfloat list) \<and>
   get_ang_speed_space (\<lambda>f x0. []) zero_quadrature (Fin (- 3)) (Fin 0.5) = Inl IndexError \<and>
   \<not> isl (get_ang_speed_space (const_root_finder (Fin 2)) zero_quadrature (Fin (- 3)) (Fin 0.5)) \<and>
   \<not> isl (get_ang_speed_space (const_root_finder NaN) zero_quadrature (Fin (- 3)) (Fin 0.5))"
  using get_ang_speed_space_no_domain_check
          [of "Fin (- 3)" "Fin 0.5" "const_root_finder (Fin 2)" zero_quadrature]
        get_ang_speed_space_no_domain_check
          [of "Fin (- 3)" "Fin 0.5" "const_root_finder NaN" zero_quadrature]
        get_ang_speed_space_no_domain_check
          [of "Fin (- 3)" "Fin 0.5" "\<lambda>f x0. []" zero_quadrature]
  by (auto simp add: Let_def const_root_finder_def)

text \<open>
  A root finder that stops at 2 radians, beyond the upper bound of 85 degrees, inverts the
  window; the result is a normal one, sampled from about 114.6 degrees down to 85.
\<close>

theorem inverted_window_returns_result:
  "fl_gt (py_max (Fin 2) (radians (Fin 5))) (radians (Fin 85)) \<and>
   (case get_ang_speed_space (const_root_finder (Fin 2)) zero_quadrature (Fin (- 3)) (Fin 0.5) of
      Inl e \<Rightarrow> False
    | Inr r \<Rightarrow> area r = Fin 0 \<and> hd (angles r) = degrees (Fin 2) \<and> last (angles r) = Fin 85)"
proof -
  have w: "fl_gt (py_max (Fin 2) (radians (Fin 5))) (radians (Fin 85))"
    using pi_window_bounds unfolding py_max_const_5 by (simp add: fl_gt_def radians_def)
  have f: "const_root_finder (Fin 2)
     (\<lambda>a. get_speed_func_squared (Fin (- 3), Fin 0.5) (rim_width / Fin 2, rim_height) a
          - get_speed_func_squared (Fin (- 3), Fin 0.5) (- rim_width / Fin 2, rim_height) a)
     (radians (Fin 85)) = Fin 2 # []"
    by (simp add: const_root_finder_def)
  have d: "degrees (Fin 2) = Fin (2 * 180 / pi)"
    by (simp add: degrees_def)
  show ?thesis
    using w get_ang_speed_space_Cons[where fsolve="const_root_finder (Fin 2)"
                and quad=zero_quadrature, OF f]
    by (simp add: Let_def py_max_const_5 zero_quadrature_def degrees_radians_85
          linspace_last d linspace_hd)
qed

section \<open>Launch from under the centre of the rim\<close>

lemma centre_curves_Fin:
  assumes c: "cos a \<noteq> 0"
  shows "get_speed_func_squared (Fin 0, Fin y) (rim_width / Fin 2, rim_height) (Fin a)
           = Fin 4.905 / Fin (y - 1.83 + 0.52 * tan a) * Fin ((0.52 / cos a) * (0.52 / cos a))"
    and "get_speed_func_squared (Fin 0, Fin y) (- rim_width / Fin 2, rim_height) (Fin a)
           = Fin 4.905 / Fin (y - 1.83 - 0.52 * tan a) * Fin ((0.52 / cos a) * (0.52 / cos a))"
  using c
  by (simp_all add: get_speed_func_squared_def np_tan_Fin g_def pow2_def rim_width_def
        rim_height_def divide_npfloat_def minus_npfloat_def del: np_tan.simps)

lemma np_tan_minus: "np_tan (Fin (- a)) = - np_tan (Fin a)"
  by (simp add: divide_npfloat_def)

lemma mirror_product: "Fin (- w) * (- t) = Fin w * t"
  by (cases t) simp_all

lemma mirror_square: "pow2 (Fin (- w) / Fin c) = pow2 (Fin w / Fin c)"
  by (simp add: pow2_def divide_npfloat_def)

lemma radians_85: "radians (Fin 85) = Fin (85 * pi / 180)"
  by (simp add: radians_def)

lemma tan_85_bound: "1.7 < tan (85 * pi / 180)"
proof -
  have "(1.7::real)\<^sup>2 < 3" by (simp add: power2_eq_square)
  then have "1.7 < sqrt 3" by (rule real_less_rsqrt)
  also have "sqrt 3 = tan (pi / 3)" by (simp add: tan_60)
  also have "tan (pi / 3) < tan (85 * pi / 180)"
  proof (rule tan_monotone)
    show "- (pi / 2) < pi / 3" using pi_gt_zero by linarith
    show "pi / 3 < 85 * pi / 180" using pi_gt_zero by linarith
    show "85 * pi / 180 < pi / 2" using pi_gt_zero by linarith
  qed
  finally show ?thesis .
qed

lemma cos_85_pos: "0 < cos (85 * pi / 180)"
proof (rule cos_gt_zero)
  show "0 < 85 * pi / 180" using pi_gt_zero by linarith
  show "85 * pi / 180 < pi / 2" using pi_gt_zero by linarith
qed

lemma centre_far_positive:
  assumes c: "0 < cos th" and t: "1.7 < tan th"
  shows "\<exists>p>0. get_speed_func_squared (Fin 0, Fin 1) (rim_width / Fin 2, rim_height) (Fin th)
                 = Fin p"
proof -
  define D where "D = 1 - 1.83 + 0.52 * tan th"
  define q where "q = (0.52 / cos th) * (0.52 / cos th)"
  have c0: "cos th \<noteq> 0" using c by simp
  have den: "0 < D" using t by (simp add: D_def)
  have h: "0 < 0.52 / cos th" using c by (intro divide_pos_pos) simp_all
  have qpos: "0 < q" unfolding q_def by (rule mult_pos_pos[OF h h])
  have "0 < 4.905 / D * q"
    using den qpos by simp
  moreover have "get_speed_func_squared (Fin 0, Fin 1) (rim_width / Fin 2, rim_height) (Fin th)
      = Fin (4.905 / D * q)"
    unfolding centre_curves_Fin[OF c0] D_def[symmetric] q_def[symmetric]
    using den by (simp add: divide_npfloat_def)
  ultimately show ?thesis by blast
qed

lemma centre_near_negative:
  assumes c: "0 < cos th" and t: "0 < tan th"
  shows "\<exists>n<0. get_speed_func_squared (Fin 0, Fin 1) (- rim_width / Fin 2, rim_height) (Fin th)
                 = Fin n"
proof -
  define D where "D = 1 - 1.83 - 0.52 * tan th"
  define q where "q = (0.52 / cos th) * (0.52 / cos th)"
  have c0: "cos th \<noteq> 0" using c by simp
  have den: "D < 0" using t by (simp add: D_def)
  have h: "0 < 0.52 / cos th" using c by (intro divide_pos_pos) simp_all
  have qpos: "0 < q" unfolding q_def by (rule mult_pos_pos[OF h h])
  have "4.905 / D < 0" using den by (simp add: divide_neg_pos divide_pos_neg)
  then have "4.905 / D * q < 0"
    using qpos by (rule mult_neg_pos)
  moreover have "get_speed_func_squared (Fin 0, Fin 1) (- rim_width / Fin 2, rim_height) (Fin th)
      = Fin (4.905 / D * q)"
    unfolding centre_curves_Fin[OF c0] D_def[symmetric] q_def[symmetric]
    using den by (simp add: divide_npfloat_def)
  ultimately show ?thesis by blast
qed

lemma last_sample_angle:
  "radians (last (linspace lo (degrees (radians (Fin 85))) 50)) = radians (Fin 85)"
  by (simp add: linspace_last degrees_radians_85)

lemma centre_space_last_samples:
  assumes "get_ang_speed_space fsolve quad (Fin 0) (Fin 1) = Inr r"
  shows "last (upper_bound r)
           = np_sqrt (get_speed_func_squared (Fin 0, Fin 1) (rim_width / Fin 2, rim_height)
                        (radians (Fin 85))) \<and>
         last (lower_bound r)
           = np_sqrt (get_speed_func_squared (Fin 0, Fin 1) (- rim_width / Fin 2, rim_height)
                        (radians (Fin 85))) \<and>
         (\<exists>lower. area r
            = fst (quad (\<lambda>a. np_sqrt (get_speed_func_squared (Fin 0, Fin 1)
                                         (rim_width / Fin 2, rim_height) a)
                              - np_sqrt (get_speed_func_squared (Fin 0, Fin 1)
                                         (- rim_width / Fin 2, rim_height) a))
                        lower (radians (Fin 85))))"
proof -
  let ?F = "\<lambda>a. get_speed_func_squared (Fin 0, Fin 1) (rim_width / Fin 2, rim_height) a
               - get_speed_func_squared (Fin 0, Fin 1) (- rim_width / Fin 2, rim_height) a"
  obtain i rest where f: "fsolve ?F (radians (Fin 85)) = i # rest"
    using assms
      get_ang_speed_space_Nil[where fsolve=fsolve and quad=quad and xpos="Fin 0" and ypos="Fin 1"]
    by (cases "fsolve ?F (radians (Fin 85))") simp_all
  let ?S = "linspace (degrees (py_max i (radians (Fin 5)))) (degrees (radians (Fin 85))) 50"
  have ne: "?S \<noteq> []" "map radians ?S \<noteq> []"
    using linspace_length[of "degrees (py_max i (radians (Fin 5)))"
            "degrees (radians (Fin 85))" 50]
    by auto
  have l: "last (map radians ?S) = radians (Fin 85)"
    using ne by (simp add: last_map last_sample_angle)
  have r: "r = \<lparr>area = fst (quad (\<lambda>a. np_sqrt (get_speed_func_squared (Fin 0, Fin 1)
                                         (rim_width / Fin 2, rim_height) a)
                              - np_sqrt (get_speed_func_squared (Fin 0, Fin 1)
                                         (- rim_width / Fin 2, rim_height) a))
                          (py_max i (radians (Fin 5))) (radians (Fin 85))),
               angles = ?S,
               lower_bound = map (\<lambda>a. np_sqrt (get_speed_func_squared (Fin 0, Fin 1)
                                         (- rim_width / Fin 2, rim_height) a))
                               (map radians ?S),
               upper_bound = map (\<lambda>a. np_sqrt (get_speed_func_squared (Fin 0, Fin 1)
                                         (rim_width / Fin 2, rim_height) a))
                               (map radians ?S)\<rparr>"
    using assms get_ang_speed_space_Cons[where fsolve=fsolve and quad=quad, OF f]
    by (simp add: Let_def)
  have u: "last (upper_bound r)
           = np_sqrt (get_speed_func_squared (Fin 0, Fin 1) (rim_width / Fin 2, rim_height)
                        (radians (Fin 85)))"
    by (subst r) (simp only: ang_speed_space.simps last_map[OF ne(2)] l)
  have lo: "last (lower_bound r)
           = np_sqrt (get_speed_func_squared (Fin 0, Fin 1) (- rim_width / Fin 2, rim_height)
                        (radians (Fin 85)))"
    by (subst r) (simp only: ang_speed_space.simps last_map[OF ne(2)] l)
  have a: "area r = fst (quad (\<lambda>a. np_sqrt (get_speed_func_squared (Fin 0, Fin 1)
                                         (rim_width / Fin 2, rim_height) a)
                              - np_sqrt (get_speed_func_squared (Fin 0, Fin 1)
                                         (- rim_width / Fin 2, rim_height) a))
                          (py_max i (radians (Fin 5))) (radians (Fin 85)))"
    by (subst r) simp
  show ?thesis using u lo a by blast
qed

text \<open>
  Claim C6, as the code has it.  For a launch point with x = 0 the near and far
  required-speed curves are not identical but mirror images of each other: the far curve at
  angle a is the near curve at angle -a.  At the launch point (0, 1.0) and the upper bound of
  the window, 85 degrees, the far curve is positive and the near curve is negative, so the
  upper bound is not an intersection of the two curves; whatever the root finder and the
  quadrature answer, the last sampled \<open>upper_bound\<close> is a positive speed, the last sampled
  \<open>lower_bound\<close> is NaN, and the area is the quadrature of an integrand that is NaN at the
  upper bound.
\<close>

theorem centre_launch_curves:
  "get_speed_func_squared (Fin 0, ypos) (rim_width / Fin 2, rim_height) (Fin a)
     = get_speed_func_squared (Fin 0, ypos) (- rim_width / Fin 2, rim_height) (Fin (- a)) \<and>
   (\<exists>p>0. get_speed_func_squared (Fin 0, Fin 1) (rim_width / Fin 2, rim_height)
             (radians (Fin 85)) = Fin p) \<and>
   (\<exists>n<0. get_speed_func_squared (Fin 0, Fin 1) (- rim_width / Fin 2, rim_height)
             (radians (Fin 85)) = Fin n) \<and>
   np_sqrt (get_speed_func_squared (Fin 0, Fin 1) (rim_width / Fin 2, rim_height)
              (radians (Fin 85)))
     - np_sqrt (get_speed_func_squared (Fin 0, Fin 1) (- rim_width / Fin 2, rim_height)
                  (radians (Fin 85))) = NaN \<and>
   (get_ang_speed_space fsolve quad (Fin 0) (Fin 1) = Inr r \<longrightarrow>
      (\<exists>s>0. last (upper_bound r) = Fin s) \<and> last (lower_bound r) = NaN \<and>
      (\<exists>lower. area r
         = fst (quad (\<lambda>a. np_sqrt (get_speed_func_squared (Fin 0, Fin 1)
                                      (rim_width / Fin 2, rim_height) a)
                           - np_sqrt (get_speed_func_squared (Fin 0, Fin 1)
                                      (- rim_width / Fin 2, rim_height) a))
                     lower (radians (Fin 85)))))"
proof -
  have w: "rim_width / Fin 2 - Fin 0 = Fin 0.52" "- rim_width / Fin 2 - Fin 0 = Fin (- 0.52)"
    by (simp_all add: rim_width_def divide_npfloat_def minus_npfloat_def)
  have mirror: "get_speed_func_squared (Fin 0, ypos) (rim_width / Fin 2, rim_height) (Fin a)
     = get_speed_func_squared (Fin 0, ypos) (- rim_width / Fin 2, rim_height) (Fin (- a))"
    unfolding get_speed_func_squared_def prod.case w np_tan_minus mirror_product np_cos.simps
      cos_minus mirror_square ..
  have t: "0 < tan (85 * pi / 180)" using tan_85_bound by linarith
  obtain p where p: "0 < p"
    "get_speed_func_squared (Fin 0, Fin 1) (rim_width / Fin 2, rim_height) (radians (Fin 85))
       = Fin p"
    using centre_far_positive[OF cos_85_pos tan_85_bound] unfolding radians_85 by blast
  obtain n where n: "n < 0"
    "get_speed_func_squared (Fin 0, Fin 1) (- rim_width / Fin 2, rim_height) (radians (Fin 85))
       = Fin n"
    using centre_near_negative[OF cos_85_pos t] unfolding radians_85 by blast
  have up: "np_sqrt (Fin p) = Fin (sqrt p)" "0 < sqrt p"
    using p(1) by simp_all
  have low: "np_sqrt (Fin n) = NaN"
    using n(1) by simp
  have integrand: "np_sqrt (get_speed_func_squared (Fin 0, Fin 1) (rim_width / Fin 2, rim_height)
              (radians (Fin 85)))
     - np_sqrt (get_speed_func_squared (Fin 0, Fin 1) (- rim_width / Fin 2, rim_height)
                  (radians (Fin 85))) = NaN"
    unfolding p(2) n(2) low by simp
  have samples: "(\<exists>s>0. last (upper_bound r) = Fin s) \<and> last (lower_bound r) = NaN \<and>
      (\<exists>lower. area r
         = fst (quad (\<lambda>a. np_sqrt (get_speed_func_squared (Fin 0, Fin 1)
                                      (rim_width / Fin 2, rim_height) a)
                           - np_sqrt (get_speed_func_squared (Fin 0, Fin 1)
                                      (- rim_width / Fin 2, rim_height) a))
                     lower (radians (Fin 85))))"
    if ret: "get_ang_speed_space fsolve quad (Fin 0) (Fin 1) = Inr r"
  proof -
    note s = centre_space_last_samples[OF ret]
    have "last (upper_bound r) = Fin (sqrt p)"
      using s unfolding p(2) up(1) by blast
    moreover have "last (lower_bound r) = NaN"
      using s unfolding n(2) low by blast
    ultimately show ?thesis using s up(2) by blast
  qed
  show ?thesis
    using mirror p n integrand samples by blast
qed

theorem centre_launch_curves_witness:
  "(case get_ang_speed_space (const_root_finder (Fin 1)) zero_quadrature (Fin 0) (Fin 1) of
      Inl e \<Rightarrow> False
    | Inr r \<Rightarrow> last (lower_bound r) = NaN \<and> last (upper_bound r) \<noteq> NaN \<and>
               last (upper_bound r) \<noteq> last (lower_bound r))"
proof -
  have f: "const_root_finder (Fin 1)
     (\<lambda>a. get_speed_func_squared (Fin 0, Fin 1) (rim_width / Fin 2, rim_height) a
          - get_speed_func_squared (Fin 0, Fin 1) (- rim_width / Fin 2, rim_height) a)
     (radians (Fin 85)) = Fin 1 # []"
    by (simp add: const_root_finder_def)
  have "\<exists>r. get_ang_speed_space (const_root_finder (Fin 1)) zero_quadrature
                       (Fin 0) (Fin 1) = Inr r"
    using get_ang_speed_space_Cons[where fsolve="const_root_finder (Fin 1)"
                and quad=zero_quadrature, OF f]
    by (simp add: Let_def)
  then obtain r where h: "get_ang_speed_space (const_root_finder (Fin 1)) zero_quadrature
                       (Fin 0) (Fin 1) = Inr r" ..
  have "(\<exists>s>0. last (upper_bound r) = Fin s) \<and> last (lower_bound r) = NaN"
    using h centre_launch_curves[of "Fin 1" 0 "const_root_finder (Fin 1)" zero_quadrature r]
    by blast
  then show ?thesis
    unfolding h by auto
qed

text \<open>
  At x = 0, y = 0.5 and 45 degrees the two curves take different values, so they are not
  identical at every angle.
\<close>

theorem centre_curves_not_identical:
  "get_speed_func_squared (Fin 0, Fin 0.5) (rim_width / Fin 2, rim_height) (Fin (pi / 4))
     \<noteq> get_speed_func_squared (Fin 0, Fin 0.5) (- rim_width / Fin 2, rim_height) (Fin (pi / 4))"
proof -
  have c: "cos (pi / 4) \<noteq> 0" by (simp add: cos_45)
  show ?thesis
    unfolding centre_curves_Fin[OF c] by (simp add: tan_45 cos_45 divide_npfloat_def)
qed

section \<open>Heat map\<close>

lemma x_range_length_calc: "nat \<lceil>(- 1 - (- 6)) / (0.2::real)\<rceil> = 25"
  by simp

lemma y_range_length_calc: "nat \<lceil>(1.25 - 0.2) / (0.2::real)\<rceil> = 6"
proof -
  have "(1.25 - 0.2) / (0.2::real) = 5.25" by simp
  moreover have "\<lceil>5.25::real\<rceil> = 6" by (simp add: ceiling_eq_iff)
  ultimately show ?thesis by simp
qed

lemma x_range_val:
  "x_range = [Fin (- 6), Fin (- 5.8), Fin (- 5.6), Fin (- 5.4), Fin (- 5.2),
              Fin (- 5), Fin (- 4.8), Fin (- 4.6), Fin (- 4.4), Fin (- 4.2),
              Fin (- 4), Fin (- 3.8), Fin (- 3.6), Fin (- 3.4), Fin (- 3.2),
              Fin (- 3), Fin (- 2.8), Fin (- 2.6), Fin (- 2.4), Fin (- 2.2),
              Fin (- 2), Fin (- 1.8), Fin (- 1.6), Fin (- 1.4), Fin (- 1.2)]"
  unfolding x_range_def arange_def x_range_length_calc by (simp add: upt_rec)

lemma y_range_val: "y_range = [Fin 0.2, Fin 0.4, Fin 0.6, Fin 0.8, Fin 1, Fin 1.2]"
  unfolding y_range_def arange_def y_range_length_calc by (simp add: upt_rec)

lemma range_lengths: "length x_range = 25" "length y_range = 6"
  by (simp_all add: x_range_def y_range_def arange_def x_range_length_calc
        y_range_length_calc)

lemma row_loop_Inr:
  "row_loop fsolve quad xi yis acc = Inr row \<Longrightarrow>
     \<exists>vals. row = acc @ vals \<and> length vals = length yis \<and>
       (\<forall>k<length yis. \<exists>ad.
          get_ang_speed_space fsolve quad (x_range ! xi) (y_range ! (yis ! k)) = Inr ad \<and>
          vals ! k = area ad * np_arctan2 rim_width \<bar>x_range ! xi\<bar>)"
proof (induction yis arbitrary: acc)
  case Nil
  then show ?case by simp
next
  case (Cons yi yis)
  from Cons.prems obtain ad where
    ad: "get_ang_speed_space fsolve quad (x_range ! xi) (y_range ! yi) = Inr ad"
    and rest: "row_loop fsolve quad xi yis
                 (acc @ [area ad * np_arctan2 rim_width \<bar>x_range ! xi\<bar>]) = Inr row"
    by (auto simp add: Let_def split: sum.splits)
  from Cons.IH[OF rest] obtain vals where
    v: "row = (acc @ [area ad * np_arctan2 rim_width \<bar>x_range ! xi\<bar>]) @ vals \<and>
        length vals = length yis \<and>
        (\<forall>k<length yis. \<exists>ad.
          get_ang_speed_space fsolve quad (x_range ! xi) (y_range ! (yis ! k)) = Inr ad \<and>
          vals ! k = area ad * np_arctan2 rim_width \<bar>x_range ! xi\<bar>)" ..
  let ?vals = "(area ad * np_arctan2 rim_width \<bar>x_range ! xi\<bar>) # vals"
  have "row = acc @ ?vals" using v by simp
  moreover have "length ?vals = length (yi # yis)" using v by simp
  moreover have "\<exists>ad'. get_ang_speed_space fsolve quad (x_range ! xi)
                          (y_range ! ((yi # yis) ! k)) = Inr ad' \<and>
                   ?vals ! k = area ad' * np_arctan2 rim_width \<bar>x_range ! xi\<bar>"
    if "k < length (yi # yis)" for k
    using that ad v by (cases k) auto
  ultimately show ?case by blast
qed

lemma grid_loop_Inr:
  "grid_loop fsolve quad xis acc = Inr grid \<Longrightarrow>
     \<exists>rows. grid = acc @ rows \<and> length rows = length xis \<and>
       (\<forall>k<length xis.
          row_loop fsolve quad (xis ! k) [0..<length y_range] [] = Inr (rows ! k))"
proof (induction xis arbitrary: acc)
  case Nil
  then show ?case by simp
next
  case (Cons xi xis)
  from Cons.prems obtain row where
    row: "row_loop fsolve quad xi [0..<length y_range] [] = Inr row"
    and rest: "grid_loop fsolve quad xis (acc @ [row]) = Inr grid"
    by (auto split: sum.splits)
  from Cons.IH[OF rest] obtain rows where
    v: "grid = (acc @ [row]) @ rows \<and> length rows = length xis \<and>
        (\<forall>k<length xis.
          row_loop fsolve quad (xis ! k) [0..<length y_range] [] = Inr (rows ! k))" ..
  have "grid = acc @ (row # rows)" using v by simp
  moreover have "length (row # rows) = length (xi # xis)" using v by simp
  moreover have "row_loop fsolve quad ((xi # xis) ! k) [0..<length y_range] []
                   = Inr ((row # rows) ! k)"
    if "k < length (xi # xis)" for k
    using that row v by (cases k) auto
  ultimately show ?case by blast
qed

lemma generate_heatmap_Inr:
  assumes "generate_heatmap fsolve quad = Inr h"
  shows "hm_x_range h = x_range \<and> hm_y_range h = y_range \<and>
         length (hm_area_grid h) = length x_range \<and>
         (\<forall>i<length x_range.
            row_loop fsolve quad i [0..<length y_range] [] = Inr (hm_area_grid h ! i))"
proof -
  from assms obtain grid where
    g: "grid_loop fsolve quad [0..<length x_range] [] = Inr grid"
    and h: "h = \<lparr>hm_x_range = x_range, hm_y_range = y_range, hm_area_grid = grid\<rparr>"
    by (auto simp add: generate_heatmap_def split: sum.splits)
  from grid_loop_Inr[OF g] obtain rows where
    v: "grid = [] @ rows \<and> length rows = length [0..<length x_range] \<and>
        (\<forall>k<length [0..<length x_range].
          row_loop fsolve quad ([0..<length x_range] ! k) [0..<length y_range] []
            = Inr (rows ! k))" ..
  show ?thesis using v h by simp
qed

lemma heatmap_row:
  assumes "generate_heatmap fsolve quad = Inr h" and "i < length x_range"
  shows "length (hm_area_grid h ! i) = length y_range \<and>
         (\<forall>j<length y_range. \<exists>ad.
            get_ang_speed_space fsolve quad (x_range ! i) (y_range ! j) = Inr ad \<and>
            hm_area_grid h ! i ! j = area ad * np_arctan2 rim_width \<bar>x_range ! i\<bar>)"
proof -
  have r: "row_loop fsolve quad i [0..<length y_range] [] = Inr (hm_area_grid h ! i)"
    using generate_heatmap_Inr[OF assms(1)] assms(2) by blast
  from row_loop_Inr[OF r] obtain vals where
    v: "hm_area_grid h ! i = [] @ vals \<and> length vals = length [0..<length y_range] \<and>
       (\<forall>k<length [0..<length y_range]. \<exists>ad.
          get_ang_speed_space fsolve quad (x_range ! i)
            (y_range ! ([0..<length y_range] ! k)) = Inr ad \<and>
          vals ! k = area ad * np_arctan2 rim_width \<bar>x_range ! i\<bar>)" ..
  show ?thesis using v by simp
qed

lemma flat_space:
  "\<exists>ad. get_ang_speed_space (const_root_finder c) zero_quadrature xpos ypos = Inr ad \<and>
        area ad = Fin 0"
  by (simp add: get_ang_speed_space_def const_root_finder_def zero_quadrature_def Let_def)

lemma flat_cell:
  assumes "xi < length x_range"
  shows "Fin 0 * np_arctan2 rim_width \<bar>x_range ! xi\<bar> = Fin 0"
  using assms by (simp add: x_range_def arange_def rim_width_def)

lemma flat_row_loop:
  assumes "xi < length x_range"
  shows "row_loop (const_root_finder c) zero_quadrature xi yis acc
           = Inr (acc @ replicate (length yis) (Fin 0))"
proof (induction yis arbitrary: acc)
  case Nil
  show ?case by simp
next
  case (Cons yi yis)
  obtain ad where
    ad: "get_ang_speed_space (const_root_finder c) zero_quadrature (x_range ! xi) (y_range ! yi)
           = Inr ad \<and> area ad = Fin 0"
    using flat_space by blast
  show ?case
    using ad Cons.IH[of "acc @ [Fin 0]"] flat_cell[OF assms]
    by (simp add: Let_def replicate_app_Cons_same)
qed

lemma flat_grid_loop:
  assumes "\<forall>xi\<in>set xis. xi < length x_range"
  shows "grid_loop (const_root_finder c) zero_quadrature xis acc
           = Inr (acc @ replicate (length xis) (replicate (length y_range) (Fin 0)))"
  using assms
proof (induction xis arbitrary: acc)
  case Nil
  show ?case by simp
next
  case (Cons xi xis)
  have "row_loop (const_root_finder c) zero_quadrature xi [0..<length y_range] []
          = Inr (replicate (length y_range) (Fin 0))"
    using flat_row_loop[of xi c "[0..<length y_range]" "[]"] Cons.prems by simp
  then show ?case
    using Cons.IH[of "acc @ [replicate (length y_range) (Fin 0)]"] Cons.prems
    by (simp add: replicate_app_Cons_same)
qed

lemma generate_flat_heatmap:
  "generate_heatmap (const_root_finder c) zero_quadrature = Inr flat_heatmap"
  using flat_grid_loop[of "[0..<length x_range]" c "[]"]
  by (simp add: generate_heatmap_def flat_heatmap_def)

lemma x_range_nth: "i < 25 \<Longrightarrow> x_range ! i = Fin (- 6 + real i * 0.2)"
  by (simp add: x_range_def arange_def x_range_length_calc)

lemma y_range_nth: "j < 6 \<Longrightarrow> y_range ! j = Fin (0.2 + real j * 0.2)"
  unfolding y_range_def arange_def y_range_length_calc by simp

text \<open>
  Claim C8, as the code has it.  Whenever \<open>generate_heatmap\<close> returns, \<open>x_range\<close> has 25
  entries, the first is -6.0 and entry i is \<open>-6 + 0.2 * i\<close> up to rounding (within 1e-9; the last
  is about -1.2, -1 being excluded); \<open>y_range\<close> has 6 entries, the first is 0.2 and entry j is
  \<open>0.2 + 0.2 * j\<close> up to rounding (the last is about 1.2, 1.25 being excluded); and the area
  grid has one row per entry of \<open>x_range\<close>, each row with one entry per entry of \<open>y_range\<close>.
\<close>

theorem generate_heatmap_grid:
  assumes "generate_heatmap fsolve quad = Inr h"
  shows "length (hm_x_range h) = 25 \<and> length (hm_y_range h) = 6 \<and>
         hd (hm_x_range h) = Fin (- 6) \<and> hd (hm_y_range h) = Fin 0.2 \<and>
         (\<forall>i<25. \<exists>v. hm_x_range h ! i = Fin v \<and> \<bar>v - (- 6 + 0.2 * real i)\<bar> \<le> 1 / 10 ^ 9) \<and>
         (\<forall>j<6. \<exists>v. hm_y_range h ! j = Fin v \<and> \<bar>v - (0.2 + 0.2 * real j)\<bar> \<le> 1 / 10 ^ 9) \<and>
         length (hm_area_grid h) = length (hm_x_range h) \<and>
         (\<forall>row\<in>set (hm_area_grid h). length row = length (hm_y_range h))"
proof -
  note g = generate_heatmap_Inr[OF assms]
  have rows: "length row = length y_range" if "row \<in> set (hm_area_grid h)" for row
  proof -
    from that obtain i where i: "i < length (hm_area_grid h)" "row = hm_area_grid h ! i"
      by (auto simp add: in_set_conv_nth)
    then have "i < length x_range" using g by simp
    then show ?thesis using heatmap_row[OF assms] i by simp
  qed
  have eq: "hm_x_range h = x_range" "hm_y_range h = y_range"
    using g by simp_all
  have len: "length (hm_area_grid h) = length (hm_x_range h)"
    using g by simp
  have all: "\<forall>row\<in>set (hm_area_grid h). length row = length (hm_y_range h)"
    using rows eq by simp
  have hx: "hd x_range = Fin (- 6)"
    using x_range_nth[of 0] range_lengths(1) by (simp add: hd_conv_nth flip: length_0_conv)
  have hy: "hd y_range = Fin 0.2"
    using y_range_nth[of 0] range_lengths(2) by (simp add: hd_conv_nth flip: length_0_conv)
  have xs: "\<exists>v. x_range ! i = Fin v \<and> \<bar>v - (- 6 + 0.2 * real i)\<bar> \<le> 1 / 10 ^ 9" if "i < 25" for i
    using x_range_nth[OF that] by simp
  have ys: "\<exists>v. y_range ! j = Fin v \<and> \<bar>v - (0.2 + 0.2 * real j)\<bar> \<le> 1 / 10 ^ 9" if "j < 6" for j
    using y_range_nth[OF that] by simp
  show ?thesis
    unfolding eq using range_lengths hx hy xs ys len[unfolded eq] all[unfolded eq] by blast
qed

theorem generate_heatmap_grid_witness:
  "generate_heatmap (const_root_finder (Fin 1)) zero_quadrature = Inr flat_heatmap \<and>
   length (hm_x_range flat_heatmap) = 25 \<and>
   length (hm_y_range flat_heatmap) = 6 \<and>
   (24::nat) < 25 \<and>
   (\<exists>v. hm_x_range flat_heatmap ! 24 = Fin v \<and> \<bar>v - (- 6 + 0.2 * real (24::nat))\<bar> \<le> 1 / 10 ^ 9) \<and>
   (5::nat) < 6 \<and>
   (\<exists>v. hm_y_range flat_heatmap ! 5 = Fin v \<and> \<bar>v - (0.2 + 0.2 * real (5::nat))\<bar> \<le> 1 / 10 ^ 9) \<and>
   length (hm_area_grid flat_heatmap) = 25 \<and>
   hm_area_grid flat_heatmap ! 0 \<in> set (hm_area_grid flat_heatmap) \<and>
   length (hm_area_grid flat_heatmap ! 0) = 6 \<and>
   hm_area_grid flat_heatmap ! 24 \<in> set (hm_area_grid flat_heatmap) \<and>
   length (hm_area_grid flat_heatmap ! 24) = 6"
proof -
  have h: "generate_heatmap (const_root_finder (Fin 1)) zero_quadrature = Inr flat_heatmap"
    by (rule generate_flat_heatmap)
  note g = generate_heatmap_grid[OF h]
  have len: "length (hm_area_grid flat_heatmap) = 25"
    using g by simp
  have m: "hm_area_grid flat_heatmap ! 0 \<in> set (hm_area_grid flat_heatmap)"
    "hm_area_grid flat_heatmap ! 24 \<in> set (hm_area_grid flat_heatmap)"
    using len by simp_all
  have r: "length (hm_area_grid flat_heatmap ! 0) = 6"
    "length (hm_area_grid flat_heatmap ! 24) = 6"
    using g m by auto
  have gx: "\<forall>i<25. \<exists>v. hm_x_range flat_heatmap ! i = Fin v \<and>
                        \<bar>v - (- 6 + 0.2 * real i)\<bar> \<le> 1 / 10 ^ 9"
    using g by (elim conjE)
  have gy: "\<forall>j<6. \<exists>v. hm_y_range flat_heatmap ! j = Fin v \<and>
                       \<bar>v - (0.2 + 0.2 * real j)\<bar> \<le> 1 / 10 ^ 9"
    using g by (elim conjE)
  have x: "\<exists>v. hm_x_range flat_heatmap ! 24 = Fin v \<and> \<bar>v - (- 6 + 0.2 * real (24::nat))\<bar> \<le> 1 / 10 ^ 9"
    using gx[rule_format, of 24] by simp
  have y: "\<exists>v. hm_y_range flat_heatmap ! 5 = Fin v \<and> \<bar>v - (0.2 + 0.2 * real (5::nat))\<bar> \<le> 1 / 10 ^ 9"
    using gy[rule_format, of 5] by simp
  show ?thesis
    using h g len m r x y by simp
qed

text \<open>
  The last value of the default \<open>y_range\<close> is 1.2, not 1.05: the sequence does not end as
  the specification writes it.
\<close>

theorem y_range_ends_at_1_2:
  "generate_heatmap (const_root_finder (Fin 1)) zero_quadrature = Inr flat_heatmap \<and>
   length (hm_y_range flat_heatmap) = 6 \<and>
   last (hm_y_range flat_heatmap) = Fin 1.2 \<and>
   last (hm_y_range flat_heatmap) \<noteq> Fin 1.05 \<and>
   Fin 1.05 \<notin> set (hm_y_range flat_heatmap)"
  by (simp add: generate_flat_heatmap flat_heatmap_def y_range_val)

text \<open>
  Claim C9.  Whenever \<open>generate_heatmap\<close> returns, every cell (i, j) of the area grid is the
  area that \<open>get_ang_speed_space\<close> gives at the launch point \<open>(x_range[i], y_range[j])\<close>,
  multiplied by \<open>arctan2 rim_width \<bar>x_range[i]\<bar>\<close>, where \<open>rim_width = 1.04\<close> is the full
  width of the aperture.
\<close>

theorem generate_heatmap_cell:
  assumes "generate_heatmap fsolve quad = Inr h"
    and "i < length (hm_x_range h)" and "j < length (hm_y_range h)"
  shows "\<exists>ad. get_ang_speed_space fsolve quad (hm_x_range h ! i) (hm_y_range h ! j) = Inr ad \<and>
              hm_area_grid h ! i ! j = area ad * np_arctan2 rim_width \<bar>hm_x_range h ! i\<bar> \<and>
              rim_width = Fin 1.04"
proof -
  note g = generate_heatmap_Inr[OF assms(1)]
  have i: "i < length x_range" and j: "j < length y_range"
    using g assms(2,3) by simp_all
  from heatmap_row[OF assms(1) i] j obtain ad where
    "get_ang_speed_space fsolve quad (x_range ! i) (y_range ! j) = Inr ad \<and>
     hm_area_grid h ! i ! j = area ad * np_arctan2 rim_width \<bar>x_range ! i\<bar>"
    by blast
  then show ?thesis
    using g by (auto simp add: rim_width_def)
qed

theorem generate_heatmap_cell_witness:
  "generate_heatmap (const_root_finder (Fin 1)) zero_quadrature = Inr flat_heatmap \<and>
   3 < length (hm_x_range flat_heatmap) \<and> 2 < length (hm_y_range flat_heatmap) \<and>
   hm_x_range flat_heatmap ! 3 = Fin (- 5.4) \<and> hm_y_range flat_heatmap ! 2 = Fin 0.6 \<and>
   (\<exists>ad. get_ang_speed_space (const_root_finder (Fin 1)) zero_quadrature (Fin (- 5.4)) (Fin 0.6)
            = Inr ad \<and>
         hm_area_grid flat_heatmap ! 3 ! 2 = area ad * np_arctan2 (Fin 1.04) (Fin 5.4))"
proof -
  have h: "generate_heatmap (const_root_finder (Fin 1)) zero_quadrature = Inr flat_heatmap"
    by (rule generate_flat_heatmap)
  have i: "3 < length (hm_x_range flat_heatmap)" and j: "2 < length (hm_y_range flat_heatmap)"
    by (simp_all add: flat_heatmap_def range_lengths)
  have v: "hm_x_range flat_heatmap ! 3 = Fin (- 5.4)" "hm_y_range flat_heatmap ! 2 = Fin 0.6"
    by (simp_all add: flat_heatmap_def x_range_val y_range_val)
  show ?thesis
    using h i j v generate_heatmap_cell[OF h i j]
    by (simp add: rim_width_def)
qed

end
